(* ===== verification/Prelude.thy ===== *)
theory Prelude
  imports Main "HOL-Library.Word"
begin

text \<open>
  The vocabulary every component shares: bytes and fixed-width integers with their
  in-memory (little-endian) representation, the network byte order conversion, bounded
  memory copies, the ways a C program ends abnormally, and the program combinators in
  which all stateful code is written.

  A program over a state \<open>'s\<close> maps a state to one of three outcomes: it does not return
  (\<open>None\<close>), it stops abnormally (\<open>Some (Inl e)\<close>, where \<open>e\<close> says whether memory was misused
  or the process called \<open>exit\<close>), or it returns a value and the next state
  (\<open>Some (Inr (x, s'))\<close>). The predicate \<open>runs_to m s Q\<close> is total correctness: \<open>m\<close> started
  in \<open>s\<close> returns, without a fault, and its result satisfies \<open>Q\<close>.
\<close>

unbundle bit_operations_syntax

named_theorems wire_simps \<open>layouts of the structures that cross a socket\<close>
named_theorems prog_simps \<open>symbolic execution of programs\<close>

section \<open>Fixed-width integers and their bytes in memory\<close>

type_synonym byte = "8 word"
type_synonym u16 = "16 word"
type_synonym u32 = "32 word"

definition le16 :: "u16 \<Rightarrow> byte list" where
  "le16 w = [ucast w, ucast (drop_bit 8 w)]"

fun un16 :: "byte list \<Rightarrow> u16" where
  "un16 (a # b # _) = ucast a OR push_bit 8 (ucast b)"
| "un16 _ = 0"

definition le32 :: "u32 \<Rightarrow> byte list" where
  "le32 w = [ucast w, ucast (drop_bit 8 w), ucast (drop_bit 16 w), ucast (drop_bit 24 w)]"

fun un32 :: "byte list \<Rightarrow> u32" where
  "un32 (a # b # c # d # _) =
     ucast a OR push_bit 8 (ucast b) OR push_bit 16 (ucast c) OR push_bit 24 (ucast d)"
| "un32 _ = 0"

definition htons :: "u16 \<Rightarrow> u16" where
  "htons w = un16 (rev (le16 w))"

abbreviation ntohs :: "u16 \<Rightarrow> u16" where
  "ntohs \<equiv> htons"

text \<open>The value an \<open>int\<close> of 32 bits holds after a value has been converted to it: conversion wraps around.\<close>

definition int32 :: "int \<Rightarrow> int" where
  "int32 x = signed_take_bit 31 x"

lemma int32_id [simp]: "- (2 ^ 31) \<le> x \<Longrightarrow> x < 2 ^ 31 \<Longrightarrow> int32 x = x"
  by (simp add: int32_def signed_take_bit_int_eq_self)

lemma length_le16 [simp]: "length (le16 w) = 2"
  by (simp add: le16_def)

lemma length_le32 [simp]: "length (le32 w) = 4"
  by (simp add: le32_def)

lemma un16_le16_append [simp]: "un16 (le16 w @ r) = w"
  by (auto simp: le16_def bit_eq_iff bit_simps)

lemma un16_le16 [simp]: "un16 (le16 w) = w"
  using un16_le16_append [of w "[]"] by simp

lemma un32_le32_append [simp]: "un32 (le32 w @ r) = w"
proof (rule bit_word_eqI)
  fix n assume "n < LENGTH(32)"
  then consider "n < 8" | "8 \<le> n \<and> n < 16" | "16 \<le> n \<and> n < 24" | "24 \<le> n \<and> n < 32"
    by fastforce
  then show "bit (un32 (le32 w @ r)) n = bit w n"
    by cases (auto simp: le32_def bit_simps)
qed

lemma un32_le32 [simp]: "un32 (le32 w) = w"
  using un32_le32_append [of w "[]"] by simp

lemma bit_byte_ge [simp]: "8 \<le> n \<Longrightarrow> \<not> bit (a :: byte) n"
  by (auto dest: bit_imp_le_length)

lemma le16_un16: "le16 (un16 (a # b # r)) = [a, b]"
proof -
  have "ucast (un16 (a # b # r)) = a" "ucast (drop_bit 8 (un16 (a # b # r))) = b"
    by (auto simp: bit_eq_iff bit_simps)
  then show ?thesis by (simp add: le16_def)
qed

lemma le32_un32: "le32 (un32 (a # b # c # d # r)) = [a, b, c, d]"
  unfolding le32_def un32.simps
  by (auto intro!: bit_word_eqI simp: bit_simps)

lemma le16_inject [simp]: "le16 v = le16 w \<longleftrightarrow> v = w"
  by (metis un16_le16)

lemma le32_inject [simp]: "le32 v = le32 w \<longleftrightarrow> v = w"
  by (metis un32_le32)

lemma htons_htons [simp]: "htons (htons w) = w"
proof -
  have "le16 (htons w) = rev (le16 w)"
    by (simp only: htons_def le16_un16 le16_def [of w] rev.simps append.simps)
  then show ?thesis by (simp add: htons_def [of "htons w"])
qed

lemma htons_inject [simp]: "htons v = htons w \<longleftrightarrow> v = w"
  by (metis htons_htons)


lemma le16_htons: "le16 (htons w) = rev (le16 w)"
  by (simp only: htons_def le16_un16 le16_def [of w] rev.simps append.simps)

section \<open>Memory: arrays of bytes with bounds\<close>

text \<open>
  The ways a run of the program ends without returning. The first five are undefined
  behaviour of C (a null or dangling pointer, an access outside an array, a decision taken
  on memory that was never written, \<open>FD_SET\<close> on a descriptor no \<open>fd_set\<close> can hold); the last
  is a call of \<open>exit\<close>.
\<close>

datatype stop = NullDeref | UseAfterFree | OutOfBounds | Uninit | BadFd | Exit int

definition get_bytes :: "byte list \<Rightarrow> nat \<Rightarrow> nat \<Rightarrow> stop + byte list" where
  "get_bytes src off n =
     (if off + n \<le> length src then Inr (take n (drop off src)) else Inl OutOfBounds)"

definition put_bytes :: "byte list \<Rightarrow> nat \<Rightarrow> byte list \<Rightarrow> stop + byte list" where
  "put_bytes dst off bs =
     (if off + length bs \<le> length dst
      then Inr (take off dst @ bs @ drop (off + length bs) dst) else Inl OutOfBounds)"

text \<open>\<open>memcpy (dst + off, src, n)\<close>, and \<open>memcmp (a, b, n) == 0\<close>.\<close>

definition memcpy :: "byte list \<Rightarrow> nat \<Rightarrow> byte list \<Rightarrow> nat \<Rightarrow> stop + byte list" where
  "memcpy dst off src n =
     (case get_bytes src 0 n of Inl e \<Rightarrow> Inl e | Inr bs \<Rightarrow> put_bytes dst off bs)"

definition memeq :: "byte list \<Rightarrow> byte list \<Rightarrow> nat \<Rightarrow> stop + bool" where
  "memeq a b n =
     (if n \<le> length a \<and> n \<le> length b then Inr (take n a = take n b) else Inl OutOfBounds)"

lemma get_bytes_append [simp]:
  "off = length pre \<Longrightarrow> n = length bs \<Longrightarrow> get_bytes (pre @ bs @ post) off n = Inr bs"
  by (simp add: get_bytes_def)

lemma put_bytes_append [simp]:
  "off = length pre \<Longrightarrow> length bs = length old \<Longrightarrow>
   put_bytes (pre @ old @ post) off bs = Inr (pre @ bs @ post)"
  by (simp add: put_bytes_def)

lemma length_put_bytes: "put_bytes dst off bs = Inr dst' \<Longrightarrow> length dst' = length dst"
  by (auto simp: put_bytes_def split: if_splits)

lemma get_put_bytes:
  "put_bytes dst off bs = Inr dst' \<Longrightarrow> get_bytes dst' off (length bs) = Inr bs"
  by (auto simp: put_bytes_def get_bytes_def split: if_splits)

lemma memcpy_prefix:
  "n \<le> length src \<Longrightarrow> n \<le> length dst \<Longrightarrow> memcpy dst 0 src n = Inr (take n src @ drop n dst)"
  by (simp add: memcpy_def get_bytes_def put_bytes_def)

lemma length_memcpy: "memcpy dst off src n = Inr dst' \<Longrightarrow> length dst' = length dst"
  by (auto simp: memcpy_def length_put_bytes split: sum.splits)

lemma memcpy_OutOfBounds: "length dst < off + n \<Longrightarrow> memcpy dst off src n = Inl OutOfBounds"
  by (auto simp: memcpy_def get_bytes_def put_bytes_def)

text \<open>Sequencing of computations that may fault and touch no state.\<close>

definition sbnd :: "stop + 'a \<Rightarrow> ('a \<Rightarrow> stop + 'b) \<Rightarrow> stop + 'b" where
  "sbnd r f = (case r of Inl e \<Rightarrow> Inl e | Inr x \<Rightarrow> f x)"

lemma sbnd_simps [simp]: "sbnd (Inl e) f = Inl e" "sbnd (Inr x) f = f x"
  by (simp_all add: sbnd_def)

lemma memcpy_append [simp]:
  "off = length pre \<Longrightarrow> n \<le> length src \<Longrightarrow> n = length old \<Longrightarrow>
   memcpy (pre @ old @ post) off src n = Inr (pre @ take n src @ post)"
  by (simp add: memcpy_def get_bytes_def)

section \<open>Programs\<close>

type_synonym ('s, 'a) prog = "'s \<Rightarrow> (stop + 'a \<times> 's) option"

definition ret :: "'a \<Rightarrow> ('s, 'a) prog" where
  "ret x s = Some (Inr (x, s))"

definition halt :: "stop \<Rightarrow> ('s, 'a) prog" where
  "halt e s = Some (Inl e)"

definition bnd :: "('s, 'a) prog \<Rightarrow> ('a \<Rightarrow> ('s, 'b) prog) \<Rightarrow> ('s, 'b) prog" where
  "bnd m f s = (case m s of
       None \<Rightarrow> None
     | Some (Inl e) \<Rightarrow> Some (Inl e)
     | Some (Inr (x, s')) \<Rightarrow> f x s')"

text \<open>A computation that reads and writes no state but may fault.\<close>

definition pure :: "stop + 'a \<Rightarrow> ('s, 'a) prog" where
  "pure r = (case r of Inl e \<Rightarrow> halt e | Inr x \<Rightarrow> ret x)"

definition runs_to :: "('s, 'a) prog \<Rightarrow> 's \<Rightarrow> ('a \<Rightarrow> 's \<Rightarrow> bool) \<Rightarrow> bool" where
  "runs_to m s Q \<longleftrightarrow> (\<exists>x s'. m s = Some (Inr (x, s')) \<and> Q x s')"

lemma bnd_mono [partial_function_mono]:
  assumes "\<And>s. mono_option (\<lambda>f. m f s)" and "\<And>x s. mono_option (\<lambda>f. g f x s)"
  shows "mono_option (\<lambda>f. bnd (m f) (g f) s)"
proof -
  have *: "(\<lambda>f. bnd (m f) (g f) s) =
      (\<lambda>f. Option.bind (m f s) (\<lambda>r. case r of Inl e \<Rightarrow> Some (Inl e) | Inr (x, s') \<Rightarrow> g f x s'))"
    by (auto simp: bnd_def fun_eq_iff split: option.split sum.split)
  have "mono_option (\<lambda>f. case r of Inl e \<Rightarrow> Some (Inl e) | Inr (x, s') \<Rightarrow> g f x s')" for r
    by (cases r) (auto split: prod.split intro: assms option.const_mono)
  then show ?thesis unfolding * by (intro bind_mono assms(1))
qed

lemma ret_apply [simp, prog_simps]: "ret x s = Some (Inr (x, s))"
  by (simp add: ret_def)

lemma halt_apply [simp, prog_simps]: "halt e s = Some (Inl e)"
  by (simp add: halt_def)

lemma pure_Inl [simp]: "pure (Inl e) = halt e"
  by (simp add: pure_def)

lemma pure_Inr [simp]: "pure (Inr x) = ret x"
  by (simp add: pure_def)

lemma bnd_ret [simp]: "bnd (ret x) f = f x"
  by (simp add: bnd_def fun_eq_iff)

lemma bnd_halt [simp]: "bnd (halt e) f = halt e"
  by (simp add: bnd_def fun_eq_iff)

lemma bnd_ret_right [simp]: "bnd m ret = m"
  by (auto simp: bnd_def fun_eq_iff split: option.split sum.split)

lemma bnd_assoc: "bnd (bnd m f) g = bnd m (\<lambda>x. bnd (f x) g)"
  by (auto simp: bnd_def fun_eq_iff split: option.split sum.split)

lemma bnd_Inr [simp]: "m s = Some (Inr (x, s')) \<Longrightarrow> bnd m f s = f x s'"
  by (simp add: bnd_def)

lemma bnd_Inl [simp]: "m s = Some (Inl e) \<Longrightarrow> bnd m f s = Some (Inl e)"
  by (simp add: bnd_def)

lemma bnd_None [simp]: "m s = None \<Longrightarrow> bnd m f s = None"
  by (simp add: bnd_def)

lemma bnd_eq_Inr:
  "bnd m f s = Some (Inr (y, t)) \<longleftrightarrow>
   (\<exists>x s'. m s = Some (Inr (x, s')) \<and> f x s' = Some (Inr (y, t)))"
  by (auto simp: bnd_def split: option.splits sum.splits)

lemma runs_to_ret [simp]: "runs_to (ret x) s Q \<longleftrightarrow> Q x s"
  by (simp add: runs_to_def)

lemma runs_to_halt [simp]: "\<not> runs_to (halt e) s Q"
  by (simp add: runs_to_def)

lemma runs_to_bnd [simp]: "runs_to (bnd m f) s Q \<longleftrightarrow> runs_to m s (\<lambda>x s'. runs_to (f x) s' Q)"
  by (auto simp: runs_to_def bnd_eq_Inr)

lemma runs_to_mono: "runs_to m s P \<Longrightarrow> (\<And>x s'. P x s' \<Longrightarrow> Q x s') \<Longrightarrow> runs_to m s Q"
  by (auto simp: runs_to_def)

lemma runs_to_if [simp]:
  "runs_to (if b then m else k) s Q \<longleftrightarrow> (if b then runs_to m s Q else runs_to k s Q)"
  by simp

lemma runs_toI: "m s = Some (Inr (x, s')) \<Longrightarrow> Q x s' \<Longrightarrow> runs_to m s Q"
  by (auto simp: runs_to_def)

lemma runs_to_eq: "m s = Some (Inr (x, s')) \<Longrightarrow> runs_to m s Q \<longleftrightarrow> Q x s'"
  by (simp add: runs_to_def)

section \<open>Interfaces shared by several components\<close>

text \<open>
  A structure that is copied to a socket and cast back from the received bytes: its
  encoding has a fixed length and the decoder, which may find further bytes behind the
  structure, gives the structure back.
\<close>

locale wire_format =
  fixes enc :: "'a \<Rightarrow> byte list"
    and dec :: "byte list \<Rightarrow> 'a"
    and wf :: "'a \<Rightarrow> bool"
    and size :: nat
  assumes enc_length: "wf x \<Longrightarrow> length (enc x) = size"
    and dec_enc_append: "wf x \<Longrightarrow> dec (enc x @ r) = x"
begin

lemma dec_enc: "wf x \<Longrightarrow> dec (enc x) = x"
  using dec_enc_append [of x "[]"] by simp

lemma enc_inject: "wf x \<Longrightarrow> wf y \<Longrightarrow> enc x = enc y \<longleftrightarrow> x = y"
  by (metis dec_enc)

lemma dec_at: "wf x \<Longrightarrow> off = length pre \<Longrightarrow> dec (drop off (pre @ enc x @ r)) = x"
  by (simp add: dec_enc_append)

lemma enc_prefix_inject: "wf x \<Longrightarrow> wf y \<Longrightarrow> enc x @ r = enc y @ r' \<longleftrightarrow> x = y \<and> r = r'"
  by (metis dec_enc_append enc_length append_eq_append_conv)

end

text \<open>
  A state machine with an invariant: the reachable states of a step relation, and the
  rule that what holds at the start and is kept by every step holds in all of them.
\<close>

inductive reach :: "('s \<Rightarrow> bool) \<Rightarrow> ('s \<Rightarrow> 's \<Rightarrow> bool) \<Rightarrow> 's \<Rightarrow> bool"
  for start step where
  reach_start: "start s \<Longrightarrow> reach start step s"
| reach_step: "reach start step s \<Longrightarrow> step s t \<Longrightarrow> reach start step t"

locale invariant_system =
  fixes start :: "'s \<Rightarrow> bool"
    and step :: "'s \<Rightarrow> 's \<Rightarrow> bool"
    and inv :: "'s \<Rightarrow> bool"
  assumes inv_start: "start s \<Longrightarrow> inv s"
    and inv_step: "inv s \<Longrightarrow> step s t \<Longrightarrow> inv t"
begin

lemma reach_inv: "reach start step s \<Longrightarrow> inv s"
  by (induction rule: reach.induct) (auto intro: inv_start inv_step)

lemma reach_imp: "reach start step s \<Longrightarrow> (\<And>t. inv t \<Longrightarrow> P t) \<Longrightarrow> P s"
  using reach_inv by blast

end

end
