(* ===== verification/Sys.thy ===== *)
theory Sys
  imports Prelude
begin

text \<open>
  The operating system as the program sees it. The kernel and libc are not part of the
  source, so they are a parameter: an \<open>os\<close> answers a system call from the history of all
  calls made so far (the current one first), which leaves every answer open. What the
  manual pages guarantee about the shape of an answer is built into the call itself:
  \<open>recv\<close> fails or delivers at most as many bytes as the buffer holds, \<open>select\<close> reports only
  descriptors it was asked about. The history is also the observable behaviour that the
  properties speak about: every frame sent, every descriptor opened and closed.

  Also here: the structures of the system headers the sources include, and their layout
  in memory on the x86 Linux hosts the program is built for (little endian).
\<close>

section \<open>Constants of the system headers\<close>

abbreviation (input) AF_UNIX :: int where "AF_UNIX \<equiv> 1"
abbreviation (input) AF_INET :: u16 where "AF_INET \<equiv> 2"
abbreviation (input) PF_INET :: u16 where "PF_INET \<equiv> 2"
abbreviation (input) AF_PACKET :: u16 where "AF_PACKET \<equiv> 17"
abbreviation (input) SOCK_STREAM :: int where "SOCK_STREAM \<equiv> 1"
abbreviation (input) SOCK_DGRAM :: int where "SOCK_DGRAM \<equiv> 2"
abbreviation (input) SOCK_RAW :: int where "SOCK_RAW \<equiv> 3"
abbreviation (input) ETH_ALEN :: nat where "ETH_ALEN \<equiv> 6"
abbreviation (input) ETH_HLEN :: nat where "ETH_HLEN \<equiv> 14"
abbreviation (input) ETH_FRAME_LEN :: nat where "ETH_FRAME_LEN \<equiv> 1514"
abbreviation (input) ETH_DATA_LEN :: int where "ETH_DATA_LEN \<equiv> 1500"
abbreviation (input) ETH_P_IP :: u16 where "ETH_P_IP \<equiv> 0x0800"
abbreviation (input) ARPHRD_ETHER :: u16 where "ARPHRD_ETHER \<equiv> 1"
abbreviation (input) ARPOP_REQUEST :: u16 where "ARPOP_REQUEST \<equiv> 1"
abbreviation (input) ARPOP_REPLY :: u16 where "ARPOP_REPLY \<equiv> 2"
abbreviation (input) IFHWADDRLEN :: nat where "IFHWADDRLEN \<equiv> 6"
abbreviation (input) EXIT_SUCCESS :: int where "EXIT_SUCCESS \<equiv> 0"
abbreviation (input) EXIT_FAILURE :: int where "EXIT_FAILURE \<equiv> 1"
abbreviation (input) FD_SETSIZE :: int where "FD_SETSIZE \<equiv> 1024"

section \<open>Structures of the system headers\<close>

text \<open>\<open>struct sockaddr\<close>, read as a \<open>struct sockaddr_in\<close> by \<open>sin_port\<close> and \<open>sin_addr\<close>.\<close>

record sockaddr =
  sa_family :: u16
  sa_data :: "byte list"

definition wf_sockaddr :: "sockaddr \<Rightarrow> bool" where
  "wf_sockaddr a \<longleftrightarrow> length (sa_data a) = 14"

definition sin_addr :: "sockaddr \<Rightarrow> u32" where
  "sin_addr a = un32 (drop 2 (sa_data a))"

definition zero_sockaddr :: sockaddr where
  "zero_sockaddr = \<lparr>sa_family = 0, sa_data = replicate 14 0\<rparr>"

text \<open>A \<open>struct sockaddr_in\<close> zeroed by \<open>memset\<close> whose family and address are then set.\<close>

definition mk_sockaddr_in :: "u16 \<Rightarrow> u32 \<Rightarrow> sockaddr" where
  "mk_sockaddr_in fam ip = \<lparr>sa_family = fam, sa_data = [0, 0] @ le32 ip @ replicate 8 0\<rparr>"

definition enc_sockaddr :: "sockaddr \<Rightarrow> byte list" where
  "enc_sockaddr a = le16 (sa_family a) @ sa_data a"

definition dec_sockaddr :: "byte list \<Rightarrow> sockaddr" where
  "dec_sockaddr bs = \<lparr>sa_family = un16 bs, sa_data = take 14 (drop 2 bs)\<rparr>"

record sockaddr_ll =
  ll_family :: u16
  ll_protocol :: u16
  ll_ifindex :: u32
  ll_hatype :: u16
  ll_halen :: byte
  ll_addr :: "byte list"

record ethhdr =
  h_dest :: "byte list"
  h_source :: "byte list"
  h_proto :: u16

definition wf_ethhdr :: "ethhdr \<Rightarrow> bool" where
  "wf_ethhdr e \<longleftrightarrow> length (h_dest e) = ETH_ALEN \<and> length (h_source e) = ETH_ALEN"

definition enc_ethhdr :: "ethhdr \<Rightarrow> byte list" where
  "enc_ethhdr e = h_dest e @ h_source e @ le16 (h_proto e)"

definition dec_ethhdr :: "byte list \<Rightarrow> ethhdr" where
  "dec_ethhdr bs = \<lparr>h_dest = take 6 bs, h_source = take 6 (drop 6 bs), h_proto = un16 (drop 12 bs)\<rparr>"

text \<open>\<open>struct ifreq\<close>: the interface name and the address union.\<close>

record ifreq =
  ifr_name :: string
  ifr_addr :: sockaddr

lemma sin_addr_mk [simp]: "sin_addr (mk_sockaddr_in fam ip) = ip"
  by (simp add: sin_addr_def mk_sockaddr_in_def)

lemma sa_family_mk [simp]: "sa_family (mk_sockaddr_in fam ip) = fam"
  by (simp add: mk_sockaddr_in_def)

lemma wf_mk_sockaddr_in [simp]: "wf_sockaddr (mk_sockaddr_in fam ip)"
  by (simp add: wf_sockaddr_def mk_sockaddr_in_def)

lemma wf_zero_sockaddr [simp]: "wf_sockaddr zero_sockaddr"
  by (simp add: wf_sockaddr_def zero_sockaddr_def)

lemma mk_sockaddr_in_inject [simp]:
  "mk_sockaddr_in f a = mk_sockaddr_in g b \<longleftrightarrow> f = g \<and> a = b"
  by (metis sa_family_mk sin_addr_mk)

interpretation sockaddr_wire: wire_format enc_sockaddr dec_sockaddr wf_sockaddr 16
  by unfold_locales (auto simp: enc_sockaddr_def dec_sockaddr_def wf_sockaddr_def)

interpretation ethhdr_wire: wire_format enc_ethhdr dec_ethhdr wf_ethhdr 14
  by unfold_locales (auto simp: enc_ethhdr_def dec_ethhdr_def wf_ethhdr_def)

lemma memeq_sockaddr:
  "wf_sockaddr a \<Longrightarrow> wf_sockaddr b \<Longrightarrow>
   memeq (enc_sockaddr a) (enc_sockaddr b) 16 = Inr (a = b)"
  by (simp add: memeq_def sockaddr_wire.enc_length sockaddr_wire.enc_inject)

section \<open>System calls\<close>

datatype call =
    Socket int int int
  | Set_hdrincl int
  | Join_group int u32 u32
  | Bind_un int string
  | Bind_in int u16
  | Getsockname int
  | Connect_un int string
  | Connect_in int u32 u16
  | Listen int int
  | Accept int
  | Chmod string nat
  | Unlink string
  | Send int "byte list"
  | Recv int nat
  | Sendto_ll int "byte list" sockaddr_ll
  | Sendto_in int "byte list" u32
  | Recvfrom int nat
  | Select "int list" "nat option"
  | Close int
  | Calloc nat nat
  | Malloc int
  | Free nat
  | Free_ptr int
  | Ioctl_ifconf int int
  | Ioctl_hwaddr int string
  | Ioctl_index int string
  | Gethostname
  | Gethostbyname string
  | Gethostbyaddr u32
  | Time
  | Sleep nat
  | Sigaction int
  | Thread_create u32
  | Recv_thread_create
  | Thread_cancel int
  | Thread_join int
  | Out string

record os =
  os_int :: "call list \<Rightarrow> int"
  os_errno :: "call list \<Rightarrow> int"
  os_recv :: "call list \<Rightarrow> byte list option"
  os_from_ll :: "call list \<Rightarrow> sockaddr_ll"
  os_from_in :: "call list \<Rightarrow> u32"
  os_ready :: "call list \<Rightarrow> int \<Rightarrow> bool"
  os_port :: "call list \<Rightarrow> u16"
  os_ifconf :: "call list \<Rightarrow> ifreq list"
  os_hwaddr :: "call list \<Rightarrow> sockaddr"
  os_ifindex :: "call list \<Rightarrow> u32"
  os_hostname :: "call list \<Rightarrow> string"
  os_hostbyname :: "call list \<Rightarrow> u32 list option"
  os_hostbyaddr :: "call list \<Rightarrow> string option"
  os_tid :: "call list \<Rightarrow> int"
  os_ctime :: "int \<Rightarrow> string"

record world =
  hist :: "call list"

definition log_call :: "call \<Rightarrow> 'a world_scheme \<Rightarrow> 'a world_scheme" where
  "log_call c s = s\<lparr>hist := c # hist s\<rparr>"

text \<open>A call whose answer is its integer result.\<close>

definition sys :: "os \<Rightarrow> call \<Rightarrow> ('a world_scheme, int) prog" where
  "sys os c s = ret (os_int os (c # hist s)) (log_call c s)"

text \<open>A call whose result the program ignores or that has none (\<open>close\<close>, \<open>unlink\<close>, output).\<close>

definition do_call :: "call \<Rightarrow> ('a world_scheme, unit) prog" where
  "do_call c s = ret () (log_call c s)"

definition sys_recv :: "os \<Rightarrow> int \<Rightarrow> nat \<Rightarrow> ('a world_scheme, byte list option) prog" where
  "sys_recv os fd n s =
     ret (map_option (take n) (os_recv os (Recv fd n # hist s))) (log_call (Recv fd n) s)"

definition sys_recvfrom_ll ::
  "os \<Rightarrow> int \<Rightarrow> nat \<Rightarrow> ('a world_scheme, byte list option \<times> sockaddr_ll) prog" where
  "sys_recvfrom_ll os fd n s =
     ret (map_option (take n) (os_recv os (Recvfrom fd n # hist s)), os_from_ll os (Recvfrom fd n # hist s))
       (log_call (Recvfrom fd n) s)"

definition sys_recvfrom_in ::
  "os \<Rightarrow> int \<Rightarrow> nat \<Rightarrow> ('a world_scheme, byte list option \<times> u32) prog" where
  "sys_recvfrom_in os fd n s =
     ret (map_option (take n) (os_recv os (Recvfrom fd n # hist s)), os_from_in os (Recvfrom fd n # hist s))
       (log_call (Recvfrom fd n) s)"

text \<open>\<open>FD_SET\<close> (and \<open>FD_ISSET\<close>) on a descriptor outside the bit array is undefined.\<close>

definition fd_ok :: "int \<Rightarrow> bool" where
  "fd_ok fd \<longleftrightarrow> 0 \<le> fd \<and> fd < FD_SETSIZE"

definition fd_set_add :: "int \<Rightarrow> int list \<Rightarrow> stop + int list" where
  "fd_set_add fd fds = (if fd_ok fd then Inr (fd # fds) else Inl BadFd)"

definition fd_isset :: "int \<Rightarrow> (int \<Rightarrow> bool) \<Rightarrow> stop + bool" where
  "fd_isset fd rset = (if fd_ok fd then Inr (rset fd) else Inl BadFd)"

definition sys_select ::
  "os \<Rightarrow> int list \<Rightarrow> nat option \<Rightarrow> ('a world_scheme, int \<times> (int \<Rightarrow> bool)) prog" where
  "sys_select os fds tmo s =
     (let h = Select fds tmo # hist s
      in ret (os_int os h, \<lambda>fd. fd \<in> set fds \<and> os_ready os h fd) (log_call (Select fds tmo) s))"

fun is_close :: "call \<Rightarrow> bool" where
  "is_close (Close _) = True"
| "is_close _ = False"

definition closes :: "'a world_scheme \<Rightarrow> call list" where
  "closes s = filter is_close (hist s)"

lemma closes_log_call [simp]:
  "closes (log_call c s) = (if is_close c then c # closes s else closes s)"
  by (simp add: closes_def log_call_def)

lemma hist_log_call [simp]: "hist (log_call c s) = c # hist s"
  by (simp add: log_call_def)

lemmas sys_defs [prog_simps] =
  sys_def do_call_def sys_recv_def sys_recvfrom_ll_def sys_recvfrom_in_def sys_select_def Let_def

lemma runs_to_sys [simp]:
  "runs_to (sys os c) s Q \<longleftrightarrow> Q (os_int os (c # hist s)) (log_call c s)"
  by (simp add: runs_to_def sys_def)

lemma runs_to_do_call [simp]: "runs_to (do_call c) s Q \<longleftrightarrow> Q () (log_call c s)"
  by (simp add: runs_to_def do_call_def)

lemma runs_to_sys_recv [simp]:
  "runs_to (sys_recv os fd n) s Q \<longleftrightarrow>
   Q (map_option (take n) (os_recv os (Recv fd n # hist s))) (log_call (Recv fd n) s)"
  by (simp add: runs_to_def sys_recv_def)

lemma runs_to_sys_select [simp]:
  "runs_to (sys_select os fds tmo) s Q \<longleftrightarrow>
   Q (os_int os (Select fds tmo # hist s),
      \<lambda>fd. fd \<in> set fds \<and> os_ready os (Select fds tmo # hist s) fd) (log_call (Select fds tmo) s)"
  by (simp add: runs_to_def sys_select_def Let_def)

text \<open>An operating system that answers 3 to every call, for the concrete instances of the theorems.\<close>

definition demo_os :: os where
  "demo_os = \<lparr>os_int = (\<lambda>_. 3), os_errno = (\<lambda>_. 0), os_recv = (\<lambda>_. None),
     os_from_ll = (\<lambda>_. \<lparr>ll_family = 0, ll_protocol = 0, ll_ifindex = 2, ll_hatype = 1, ll_halen = 6,
       ll_addr = [2, 2, 2, 2, 2, 2, 0, 0]\<rparr>),
     os_from_in = (\<lambda>_. 0), os_ready = (\<lambda>_ _. False), os_port = (\<lambda>_. 0), os_ifconf = (\<lambda>_. []),
     os_hwaddr = (\<lambda>_. \<lparr>sa_family = 1, sa_data = replicate 14 7\<rparr>), os_ifindex = (\<lambda>_. 2), os_hostname = (\<lambda>_. ''vm1''),
     os_hostbyname = (\<lambda>_. None), os_hostbyaddr = (\<lambda>_. None), os_tid = (\<lambda>h. int (length h)), os_ctime = (\<lambda>_. [])\<rparr>"

text \<open>
  Printing with \<open>%s\<close> the array of \<open>cap\<close> bytes that was zeroed and into which \<open>bs\<close> was received: the text ends at
  the first zero byte, and a full array without one is read beyond its end.
\<close>

definition c_string :: "nat \<Rightarrow> byte list \<Rightarrow> stop + string" where
  "c_string cap bs =
     (if length bs < cap \<or> 0 \<in> set bs then Inr (map (\<lambda>b. char_of (unat b)) (takeWhile (\<lambda>b. b \<noteq> 0) bs)) else Inl OutOfBounds)"

definition string_bytes :: "string \<Rightarrow> byte list" where
  "string_bytes str = map (\<lambda>c. of_nat (of_char c)) str"

lemma unat_of_char: "unat (of_nat (of_char c) :: byte) = of_char c"
  by (simp add: unat_of_nat)

lemma c_string_bytes:
  assumes "length str < cap" and "CHR 0x00 \<notin> set str"
  shows "c_string cap (string_bytes str) = Inr str"
proof -
  have nz: "(of_nat (of_char c) :: byte) \<noteq> 0" if "c \<in> set str" for c
  proof
    assume "(of_nat (of_char c) :: byte) = 0"
    then have "of_char c = (0 :: nat)" using unat_of_char [of c] by simp
    moreover have "of_char (CHR 0x00) = (0 :: nat)" by simp
    ultimately have "c = CHR 0x00" by (metis of_char_eq_iff)
    then show False using that assms(2) by simp
  qed
  have "takeWhile (\<lambda>b. b \<noteq> 0) (string_bytes str) = string_bytes str"
    using nz by (simp add: string_bytes_def takeWhile_eq_all_conv)
  moreover have "map (\<lambda>b. char_of (unat b)) (string_bytes str) = str"
    by (simp add: string_bytes_def unat_of_char comp_def)
  ultimately have "map (\<lambda>b. char_of (unat b)) (takeWhile (\<lambda>b. b \<noteq> 0) (string_bytes str)) = str" by (simp only:)
  moreover have "length (string_bytes str) < cap" using assms(1) by (simp add: string_bytes_def)
  ultimately show ?thesis by (simp add: c_string_def)
qed

text \<open>More calls in the history, nothing else changed.\<close>

definition logs :: "call list \<Rightarrow> 'a world_scheme \<Rightarrow> 'a world_scheme" where
  "logs cs s = s\<lparr>hist := cs @ hist s\<rparr>"

lemma logs_simps [simp]:
  "logs [] s = s" "log_call c (logs cs s) = logs (c # cs) s" "logs cs (log_call c s) = logs (cs @ [c]) s"
  "logs xs (logs ys s) = logs (xs @ ys) s" "hist (logs cs s) = cs @ hist s"
  by (simp_all add: logs_def log_call_def)

lemma log_call_logs: "log_call c s = logs [c] s"
  by (simp add: logs_def log_call_def)


end
