(* ===== verification/Wire.thy ===== *)
theory Wire
  imports Sys
begin

text \<open>
  The structures of \<open>api.h\<close> that travel between a client of the ARP daemon and the daemon
  over the UNIX socket, and their layout in memory: \<open>struct areq\<close> (20 bytes) and
  \<open>struct hwaddr\<close> (28 bytes, with one byte of padding before \<open>sll_hatype\<close> and one at the end).
\<close>

record areq =
  addr :: sockaddr
  addrlen :: u32

record hwaddr =
  sll_ifindex :: u32
  sll_ifhatype :: u16
  sll_ifhalen :: byte
  sll_ifaddr :: "byte list"
  sll_hatype :: u16
  sll_halen :: byte
  sll_addr :: "byte list"

definition wf_areq :: "areq \<Rightarrow> bool" where
  "wf_areq r \<longleftrightarrow> wf_sockaddr (addr r)"

definition enc_areq :: "areq \<Rightarrow> byte list" where
  "enc_areq r = enc_sockaddr (addr r) @ le32 (addrlen r)"

definition dec_areq :: "byte list \<Rightarrow> areq" where
  "dec_areq bs = \<lparr>addr = dec_sockaddr bs, addrlen = un32 (drop 16 bs)\<rparr>"

definition wf_hwaddr :: "hwaddr \<Rightarrow> bool" where
  "wf_hwaddr x \<longleftrightarrow> length (sll_ifaddr x) = 8 \<and> length (sll_addr x) = 8"

definition zero_hwaddr :: hwaddr where
  "zero_hwaddr = \<lparr>sll_ifindex = 0, sll_ifhatype = 0, sll_ifhalen = 0, sll_ifaddr = replicate 8 0,
     sll_hatype = 0, sll_halen = 0, sll_addr = replicate 8 0\<rparr>"

definition enc_hwaddr :: "hwaddr \<Rightarrow> byte list" where
  "enc_hwaddr x = le32 (sll_ifindex x) @ le16 (sll_ifhatype x) @ [sll_ifhalen x] @ sll_ifaddr x @ [0] @
     le16 (sll_hatype x) @ [sll_halen x] @ sll_addr x @ [0]"

definition dec_hwaddr :: "byte list \<Rightarrow> hwaddr" where
  "dec_hwaddr bs = \<lparr>sll_ifindex = un32 bs, sll_ifhatype = un16 (drop 4 bs), sll_ifhalen = bs ! 6,
     sll_ifaddr = take 8 (drop 7 bs), sll_hatype = un16 (drop 16 bs), sll_halen = bs ! 18,
     sll_addr = take 8 (drop 19 bs)\<rparr>"

lemma wf_zero_hwaddr [simp]: "wf_hwaddr zero_hwaddr"
  by (simp add: wf_hwaddr_def zero_hwaddr_def)

interpretation areq_wire: wire_format enc_areq dec_areq wf_areq 20
proof
  fix x r assume "wf_areq x"
  then show "length (enc_areq x) = 20" "dec_areq (enc_areq x @ r) = x"
    by (simp_all add: enc_areq_def dec_areq_def wf_areq_def sockaddr_wire.enc_length
        sockaddr_wire.dec_enc_append)
qed

interpretation hwaddr_wire: wire_format enc_hwaddr dec_hwaddr wf_hwaddr 28
  by unfold_locales (auto simp: enc_hwaddr_def dec_hwaddr_def wf_hwaddr_def nth_append)

end
