(* ===== verification/Arp_Cache.thy ===== *)
theory Arp_Cache
  imports Wire
begin

text \<open>
  The ARP cache (\<open>cache.c\<close>, \<open>cache.h\<close>): a doubly linked list of entries, on an explicit heap.
  A pointer is an address or null (\<open>None\<close>); a read or write through null or through an
  address that was freed stops the run. The operations keep the pointer writes of the
  source in their order, because two of the theorems below are about what goes wrong when
  a link is not reset. The loops over the list are \<open>search\<close>, which does not return on a
  cyclic list.

  \<open>cache_rep s as\<close> says that the list headed by the static variable \<open>cache\<close> runs through
  the addresses \<open>as\<close> with correct links in both directions; \<open>head_ok s\<close>, that the first
  entry has no predecessor, is kept apart because removing the head breaks it.
  \<open>entry_of s a\<close> is the data of an entry without its links. The look-ups are instances of
  one interface, the locale \<open>lookup_table\<close>.
\<close>

section \<open>Data and memory\<close>

type_synonym addr = nat

abbreviation (input) STATE_CONNECTION :: int where "STATE_CONNECTION \<equiv> 0"
abbreviation (input) STATE_INCOMPLETE :: int where "STATE_INCOMPLETE \<equiv> 1"
abbreviation (input) STATE_COMPLETE :: int where "STATE_COMPLETE \<equiv> 2"

record Cache =
  ipaddress :: sockaddr
  domain_socket :: int
  state :: int
  hw :: hwaddr
  nextp :: "addr option"
  prevp :: "addr option"

record cstate = world +
  heap :: "addr \<Rightarrow> Cache option"
  brk :: addr
  cache :: "addr option"

datatype cache_list_ptr = Null_list | Addr_of_cache

definition zero_Cache :: Cache where
  "zero_Cache = \<lparr>ipaddress = zero_sockaddr, domain_socket = 0, state = 0, hw = zero_hwaddr,
     nextp = None, prevp = None\<rparr>"

definition load :: "addr option \<Rightarrow> (cstate, Cache) prog" where
  "load p s = (case p of
       None \<Rightarrow> halt NullDeref s
     | Some a \<Rightarrow> (case heap s a of None \<Rightarrow> halt UseAfterFree s | Some c \<Rightarrow> ret c s))"

definition modify :: "addr option \<Rightarrow> (Cache \<Rightarrow> Cache) \<Rightarrow> (cstate, unit) prog" where
  "modify p f s = (case p of
       None \<Rightarrow> halt NullDeref s
     | Some a \<Rightarrow> (case heap s a of
           None \<Rightarrow> halt UseAfterFree s
         | Some c \<Rightarrow> ret () (s\<lparr>heap := (heap s)(a \<mapsto> f c)\<rparr>)))"

definition get_cache :: "(cstate, addr option) prog" where
  "get_cache s = ret (cache s) s"

definition set_cache :: "addr option \<Rightarrow> (cstate, unit) prog" where
  "set_cache p s = ret () (s\<lparr>cache := p\<rparr>)"

definition calloc_Cache :: "os \<Rightarrow> (cstate, addr option) prog" where
  "calloc_Cache os = bnd (sys os (Calloc 1 72)) (\<lambda>r s.
     if r < 0 then ret None s
     else ret (Some (brk s)) (s\<lparr>heap := (heap s)(brk s \<mapsto> zero_Cache), brk := Suc (brk s)\<rparr>))"

definition free_Cache :: "addr option \<Rightarrow> (cstate, unit) prog" where
  "free_Cache p s = (case p of
       None \<Rightarrow> ret () s
     | Some a \<Rightarrow> (case heap s a of
           None \<Rightarrow> halt UseAfterFree s
         | Some c \<Rightarrow> ret () (log_call (Free a) (s\<lparr>heap := (heap s)(a := None)\<rparr>))))"

section \<open>Operations\<close>

definition addToCache :: "cache_list_ptr \<Rightarrow> addr option \<Rightarrow> (cstate, bool) prog" where
  "addToCache list entry =
     (if entry \<noteq> None \<and> list \<noteq> Null_list then
        bnd get_cache (\<lambda>head.
        bnd (if head \<noteq> None then
               bnd (modify entry (\<lambda>e. e\<lparr>nextp := head\<rparr>)) (\<lambda>_.
               bnd (modify entry (\<lambda>e. e\<lparr>prevp := None\<rparr>)) (\<lambda>_.
               modify head (\<lambda>c. c\<lparr>prevp := entry\<rparr>)))
             else
               bnd (modify entry (\<lambda>e. e\<lparr>nextp := None\<rparr>)) (\<lambda>_.
               modify entry (\<lambda>e. e\<lparr>prevp := None\<rparr>))) (\<lambda>_.
        bnd (set_cache entry) (\<lambda>_.
        ret True)))
      else ret False)"

definition isSameCache :: "addr option \<Rightarrow> addr option \<Rightarrow> (cstate, bool) prog" where
  "isSameCache c1 c2 =
     (if c1 \<noteq> None \<and> c2 \<noteq> None then
        if c1 = c2 then ret True
        else
          bnd (load c1) (\<lambda>e1. bnd (load c2) (\<lambda>e2.
            if sll_ifindex (hw e1) \<noteq> sll_ifindex (hw e2) then ret False
            else bnd (pure (memeq (sll_addr (hw e1)) (sll_addr (hw e2)) (unat (sll_halen (hw e2))))) (\<lambda>eq.
              if \<not> eq then ret False
              else pure (memeq (enc_sockaddr (ipaddress e1)) (enc_sockaddr (ipaddress e2)) 16))))
      else ret False)"

partial_function (option) search ::
  "(addr \<Rightarrow> (cstate, bool) prog) \<Rightarrow> addr option \<Rightarrow> cstate \<Rightarrow> (stop + addr option \<times> cstate) option" where
  "search test node s = (case node of
       None \<Rightarrow> ret None s
     | Some a \<Rightarrow> bnd (test a) (\<lambda>hit s1.
         if hit then ret (Some a) s1
         else bnd (load node) (\<lambda>c s2. search test (nextp c) s2) s1) s)"

definition updateCache :: "addr option \<Rightarrow> addr option \<Rightarrow> (cstate, bool) prog" where
  "updateCache list entry =
     (if list \<noteq> None \<and> entry \<noteq> None then
        bnd (search (\<lambda>node. isSameCache (Some node) entry) list) (\<lambda>node.
        if node = None then ret False
        else
          bnd (load entry) (\<lambda>e. bnd (modify node (\<lambda>c. c\<lparr>ipaddress := ipaddress e\<rparr>)) (\<lambda>_.
          bnd (load entry) (\<lambda>e. bnd (modify node (\<lambda>c. c\<lparr>hw := (hw c)\<lparr>sll_ifindex := sll_ifindex (hw e)\<rparr>\<rparr>)) (\<lambda>_.
          bnd (load entry) (\<lambda>e. bnd (modify node (\<lambda>c. c\<lparr>hw := (hw c)\<lparr>sll_hatype := sll_hatype (hw e)\<rparr>\<rparr>)) (\<lambda>_.
          bnd (load entry) (\<lambda>e. bnd (load node) (\<lambda>c.
          bnd (pure (memcpy (sll_addr (hw c)) 0 (sll_addr (hw e)) (unat (sll_halen (hw e))))) (\<lambda>bs.
          bnd (modify node (\<lambda>c. c\<lparr>hw := (hw c)\<lparr>sll_addr := bs\<rparr>\<rparr>)) (\<lambda>_.
          ret True)))))))))))
      else ret False)"

definition unlink_node :: "addr option \<Rightarrow> (cstate, unit) prog" where
  "unlink_node node =
     bnd (load node) (\<lambda>n.
     if prevp n = None then set_cache (nextp n)
     else
       bnd (modify (prevp n) (\<lambda>p. p\<lparr>nextp := nextp n\<rparr>)) (\<lambda>_.
       bnd (load node) (\<lambda>n.
       if nextp n \<noteq> None then modify (nextp n) (\<lambda>q. q\<lparr>prevp := prevp n\<rparr>) else ret ())))"

definition removeFromCache :: "cache_list_ptr \<Rightarrow> addr option \<Rightarrow> (cstate, bool) prog" where
  "removeFromCache list entry =
     (if list \<noteq> Null_list \<and> entry \<noteq> None then
        bnd get_cache (\<lambda>head.
        bnd (search (\<lambda>node. isSameCache (Some node) entry) head) (\<lambda>node.
        if node = None then ret False
        else bnd (unlink_node node) (\<lambda>_. bnd (free_Cache node) (\<lambda>_. ret True))))
      else ret False)"

definition getFromCache :: "addr option \<Rightarrow> addr option \<Rightarrow> (cstate, addr option) prog" where
  "getFromCache list entry =
     (if list \<noteq> None \<and> entry \<noteq> None then search (\<lambda>node. isSameCache (Some node) entry) list
      else ret None)"

definition getCacheBySocket :: "addr option \<Rightarrow> int \<Rightarrow> (cstate, addr option) prog" where
  "getCacheBySocket list sock =
     (if list \<noteq> None then search (\<lambda>node. bnd (load (Some node)) (\<lambda>c. ret (domain_socket c = sock))) list
      else ret None)"

definition getCacheByHWAddr :: "addr option \<Rightarrow> byte list option \<Rightarrow> (cstate, addr option) prog" where
  "getCacheByHWAddr list if_haddr =
     (case if_haddr of
        None \<Rightarrow> ret None
      | Some ha \<Rightarrow>
          if list \<noteq> None then
            search (\<lambda>node. bnd (load (Some node)) (\<lambda>c.
              pure (memeq (sll_addr (hw c)) ha (unat (sll_halen (hw c)))))) list
          else ret None)"

definition getCacheByIpAddr :: "addr option \<Rightarrow> sockaddr option \<Rightarrow> (cstate, addr option) prog" where
  "getCacheByIpAddr list ipaddr =
     (case ipaddr of
        None \<Rightarrow> ret None
      | Some ip \<Rightarrow>
          if list \<noteq> None then
            search (\<lambda>node. bnd (load (Some node)) (\<lambda>c.
              pure (memeq (enc_sockaddr (ipaddress c)) (enc_sockaddr ip) 16))) list
          else ret None)"

lemma load_Some [simp]: "heap s a = Some c \<Longrightarrow> load (Some a) s = Some (Inr (c, s))"
  by (simp add: load_def)

lemma modify_Some [simp]:
  "heap s a = Some c \<Longrightarrow> modify (Some a) f s = Some (Inr ((), s\<lparr>heap := (heap s)(a \<mapsto> f c)\<rparr>))"
  by (simp add: modify_def)


lemma load_heap_cong: "heap t = heap s \<Longrightarrow> load p t = (case load p s of
     Some (Inr (c, _)) \<Rightarrow> Some (Inr (c, t)) | Some (Inl e) \<Rightarrow> Some (Inl e) | None \<Rightarrow> None)"
  by (auto simp: load_def split: option.splits)

lemma log_call_cstate [simp]:
  "heap (log_call c s) = heap s" "cache (log_call c s) = cache s" "brk (log_call c s) = brk s"
  by (simp_all add: log_call_def)

section \<open>The linked list in the heap\<close>

fun back_link :: "(addr \<Rightarrow> Cache option) \<Rightarrow> addr \<Rightarrow> addr list \<Rightarrow> bool" where
  "back_link h a [] \<longleftrightarrow> True"
| "back_link h a (b # _) \<longleftrightarrow> map_option prevp (h b) = Some (Some a)"

fun dls :: "(addr \<Rightarrow> Cache option) \<Rightarrow> addr option \<Rightarrow> addr list \<Rightarrow> bool" where
  "dls h p [] \<longleftrightarrow> p = None"
| "dls h p (a # as) \<longleftrightarrow> p = Some a \<and> back_link h a as \<and> (\<exists>c. h a = Some c \<and> dls h (nextp c) as)"

definition cache_rep :: "cstate \<Rightarrow> addr list \<Rightarrow> bool" where
  "cache_rep s as \<longleftrightarrow> dls (heap s) (cache s) as \<and> distinct as \<and> (\<forall>a. heap s a \<noteq> None \<longrightarrow> a < brk s)"

definition head_ok :: "cstate \<Rightarrow> bool" where
  "head_ok s \<longleftrightarrow> (\<forall>a. cache s = Some a \<longrightarrow> map_option prevp (heap s a) = Some None)"

definition strip :: "Cache \<Rightarrow> Cache" where
  "strip c = c\<lparr>nextp := None, prevp := None\<rparr>"

definition entry_of :: "cstate \<Rightarrow> addr \<Rightarrow> Cache" where
  "entry_of s a = strip (the (heap s a))"

lemma back_link_cong: "back_link h x as \<Longrightarrow> (\<And>a. a \<in> set as \<Longrightarrow> h' a = h a) \<Longrightarrow> back_link h' x as"
  by (cases as) auto

lemma dls_cong:
  "dls h p as \<Longrightarrow> (\<And>a. a \<in> set as \<Longrightarrow> h' a = h a) \<Longrightarrow> dls h' p as"
proof (induction as arbitrary: p)
  case (Cons a as)
  then have "back_link h' a as" by (auto elim: back_link_cong)
  with Cons show ?case by auto
qed simp

lemma dls_upd_notin [simp]: "a \<notin> set as \<Longrightarrow> dls (h(a := v)) p as = dls h p as"
  by (rule iffI; erule dls_cong) auto

lemma back_link_upd_notin [simp]: "a \<notin> set as \<Longrightarrow> back_link (h(a := v)) x as = back_link h x as"
  by (cases as) auto

lemma dls_in_heap: "dls h p as \<Longrightarrow> a \<in> set as \<Longrightarrow> h a \<noteq> None"
  by (induction as arbitrary: p) auto

lemma dls_upd_prev_head:
  "dls h p (a # as) \<Longrightarrow> a \<notin> set as \<Longrightarrow> h a = Some c \<Longrightarrow> dls (h(a \<mapsto> c\<lparr>prevp := q\<rparr>)) p (a # as)"
  by auto

lemma back_link_upd_data:
  "back_link h x as \<Longrightarrow> h a = Some c \<Longrightarrow> prevp c' = prevp c \<Longrightarrow> back_link (h(a \<mapsto> c')) x as"
  by (cases as) auto

lemma dls_upd_data:
  "dls h p as \<Longrightarrow> h a = Some c \<Longrightarrow> nextp c' = nextp c \<Longrightarrow> prevp c' = prevp c \<Longrightarrow> dls (h(a \<mapsto> c')) p as"
  by (induction as arbitrary: p) (auto simp: back_link_upd_data)

lemma dls_next: "dls h p (pre @ a # post) \<Longrightarrow> h a = Some c \<Longrightarrow>
    nextp c = (case post of [] \<Rightarrow> None | b # _ \<Rightarrow> Some b)"
  by (induction pre arbitrary: p) (auto, cases post, auto)

lemma dls_prev: "dls h p (pre @ x # a # post) \<Longrightarrow> map_option prevp (h a) = Some (Some x)"
  by (induction pre arbitrary: p) auto

definition unlinked ::
  "(addr \<Rightarrow> Cache option) \<Rightarrow> addr \<Rightarrow> addr \<Rightarrow> addr list \<Rightarrow> addr \<Rightarrow> Cache option" where
  "unlinked h x a post =
     (let h1 = h(x \<mapsto> (the (h x))\<lparr>nextp := nextp (the (h a))\<rparr>)
      in (case post of [] \<Rightarrow> h1 | b # _ \<Rightarrow> h1(b \<mapsto> (the (h b))\<lparr>prevp := Some x\<rparr>))(a := None))"

lemma dls_unlink:
  assumes "dls h p (pre @ x # a # post)" and "distinct (pre @ x # a # post)"
  shows "dls (unlinked h x a post) p (pre @ x # post)"
  using assms
proof (induction pre arbitrary: p)
  case Nil
  then show ?case
    by (cases post) (auto simp: unlinked_def elim!: dls_cong back_link_cong)
next
  case (Cons y pre)
  then have "back_link (unlinked h x a post) y (pre @ x # post)"
    by (cases post; cases pre) (auto simp: unlinked_def)
  moreover have "unlinked h x a post y = h y"
    using Cons.prems by (cases post) (auto simp: unlinked_def)
  ultimately show ?case using Cons by auto
qed

lemma cache_rep_entry:
  "cache_rep s as \<Longrightarrow> a \<in> set as \<Longrightarrow> \<exists>c. heap s a = Some c"
  by (auto simp: cache_rep_def dest: dls_in_heap)

lemma cache_rep_head: "cache_rep s as \<Longrightarrow> cache s = (case as of [] \<Rightarrow> None | a # _ \<Rightarrow> Some a)"
  by (auto simp: cache_rep_def split: list.splits)

section \<open>Searching\<close>

lemma search_dls:
  assumes "dls (heap s) p as" and "\<And>a. a \<in> set as \<Longrightarrow> test a s = Some (Inr (P a, s))"
  shows "search test p s = Some (Inr (find P as, s))"
  using assms
proof (induction as arbitrary: p)
  case Nil
  then show ?case by (subst search.simps) simp
next
  case (Cons a as)
  then show ?case by (subst search.simps) auto
qed


definition wf_Cache :: "Cache \<Rightarrow> bool" where
  "wf_Cache c \<longleftrightarrow> wf_sockaddr (ipaddress c) \<and> wf_hwaddr (hw c) \<and> unat (sll_halen (hw c)) \<le> 8"

definition wf_heap :: "cstate \<Rightarrow> bool" where
  "wf_heap s \<longleftrightarrow> (\<forall>a c. heap s a = Some c \<longrightarrow> wf_Cache c)"

definition same_entry :: "Cache \<Rightarrow> Cache \<Rightarrow> bool" where
  "same_entry c1 c2 \<longleftrightarrow>
     sll_ifindex (hw c1) = sll_ifindex (hw c2) \<and>
     take (unat (sll_halen (hw c2))) (sll_addr (hw c1)) = take (unat (sll_halen (hw c2))) (sll_addr (hw c2)) \<and>
     ipaddress c1 = ipaddress c2"

lemma wf_heapD: "wf_heap s \<Longrightarrow> heap s a = Some c \<Longrightarrow> wf_Cache c"
  by (simp add: wf_heap_def)

lemma isSameCache_eq:
  assumes "heap s a = Some x" and "heap s b = Some y" and "wf_heap s"
  shows "isSameCache (Some a) (Some b) s = Some (Inr (a = b \<or> same_entry x y, s))"
proof -
  have "wf_Cache x" "wf_Cache y" using assms by (auto dest: wf_heapD)
  then have "memeq (sll_addr (hw x)) (sll_addr (hw y)) (unat (sll_halen (hw y))) =
      Inr (take (unat (sll_halen (hw y))) (sll_addr (hw x)) = take (unat (sll_halen (hw y))) (sll_addr (hw y)))"
    and "memeq (enc_sockaddr (ipaddress x)) (enc_sockaddr (ipaddress y)) 16 = Inr (ipaddress x = ipaddress y)"
    by (auto simp: wf_Cache_def wf_hwaddr_def memeq_sockaddr memeq_def [of "sll_addr _"])
  with assms(1,2) show ?thesis
    by (auto simp: isSameCache_def same_entry_def)
qed

abbreviation same_as :: "cstate \<Rightarrow> addr \<Rightarrow> addr \<Rightarrow> bool" where
  "same_as s e a \<equiv> a = e \<or> same_entry (the (heap s a)) (the (heap s e))"

lemma search_same:
  assumes "cache_rep s as" and "wf_heap s" and "heap s e = Some x"
  shows "search (\<lambda>node. isSameCache (Some node) (Some e)) (cache s) s = Some (Inr (find (same_as s e) as, s))"
proof (rule search_dls)
  show "dls (heap s) (cache s) as" using assms by (simp add: cache_rep_def)
next
  fix a assume "a \<in> set as"
  then obtain c where "heap s a = Some c" using cache_rep_entry [OF assms(1)] by blast
  then show "isSameCache (Some a) (Some e) s = Some (Inr (same_as s e a, s))"
    using assms(2,3) by (simp add: isSameCache_eq)
qed

lemma getFromCache_find:
  assumes "cache_rep s as" and "wf_heap s" and "heap s e = Some x"
  shows "getFromCache (cache s) (Some e) s = Some (Inr (find (same_as s e) as, s))"
  using search_same [OF assms] cache_rep_head [OF assms(1)]
  by (auto simp: getFromCache_def split: list.splits)

lemma getCacheBySocket_find:
  assumes "cache_rep s as"
  shows "getCacheBySocket (cache s) sock s =
    Some (Inr (find (\<lambda>a. domain_socket (the (heap s a)) = sock) as, s))"
proof -
  have "search (\<lambda>node. bnd (load (Some node)) (\<lambda>c. ret (domain_socket c = sock))) (cache s) s =
      Some (Inr (find (\<lambda>a. domain_socket (the (heap s a)) = sock) as, s))"
    using assms by (intro search_dls) (auto simp: cache_rep_def dest: dls_in_heap)
  then show ?thesis using cache_rep_head [OF assms]
    by (auto simp: getCacheBySocket_def split: list.splits)
qed

lemma getCacheByHWAddr_find:
  assumes "cache_rep s as" and "wf_heap s" and "8 \<le> length ha"
  shows "getCacheByHWAddr (cache s) (Some ha) s =
    Some (Inr (find (\<lambda>a. let c = the (heap s a); n = unat (sll_halen (hw c))
                         in take n (sll_addr (hw c)) = take n ha) as, s))" (is "_ = Some (Inr (find ?P _, s))")
proof -
  have "search (\<lambda>node. bnd (load (Some node)) (\<lambda>c.
      pure (memeq (sll_addr (hw c)) ha (unat (sll_halen (hw c)))))) (cache s) s = Some (Inr (find ?P as, s))"
  proof (rule search_dls)
    show "dls (heap s) (cache s) as" using assms by (simp add: cache_rep_def)
  next
    fix a assume "a \<in> set as"
    then obtain c where "heap s a = Some c" using cache_rep_entry [OF assms(1)] by blast
    moreover then have "wf_Cache c" using assms(2) by (rule wf_heapD [rotated])
    ultimately show "bnd (load (Some a)) (\<lambda>c. pure (memeq (sll_addr (hw c)) ha (unat (sll_halen (hw c))))) s
        = Some (Inr (?P a, s))"
      using assms(3) by (simp add: memeq_def wf_Cache_def wf_hwaddr_def Let_def)
  qed
  then show ?thesis using cache_rep_head [OF assms(1)]
    by (auto simp: getCacheByHWAddr_def split: list.splits)
qed

lemma getCacheByIpAddr_find:
  assumes "cache_rep s as" and "wf_heap s" and "wf_sockaddr ip"
  shows "getCacheByIpAddr (cache s) (Some ip) s =
    Some (Inr (find (\<lambda>a. ipaddress (the (heap s a)) = ip) as, s))"
proof -
  have "search (\<lambda>node. bnd (load (Some node)) (\<lambda>c.
      pure (memeq (enc_sockaddr (ipaddress c)) (enc_sockaddr ip) 16))) (cache s) s =
      Some (Inr (find (\<lambda>a. ipaddress (the (heap s a)) = ip) as, s))"
  proof (rule search_dls)
    show "dls (heap s) (cache s) as" using assms by (simp add: cache_rep_def)
  next
    fix a assume "a \<in> set as"
    then obtain c where "heap s a = Some c" using cache_rep_entry [OF assms(1)] by blast
    moreover then have "wf_Cache c" using assms(2) by (rule wf_heapD [rotated])
    ultimately show "bnd (load (Some a)) (\<lambda>c. pure (memeq (enc_sockaddr (ipaddress c)) (enc_sockaddr ip) 16)) s
        = Some (Inr (ipaddress (the (heap s a)) = ip, s))"
      using assms(3) by (simp add: memeq_sockaddr wf_Cache_def)
  qed
  then show ?thesis using cache_rep_head [OF assms(1)]
    by (auto simp: getCacheByIpAddr_def split: list.splits)
qed

section \<open>Adding and removing\<close>

text \<open>The heap after \<open>addToCache\<close>.\<close>

definition linked_front :: "cstate \<Rightarrow> addr \<Rightarrow> addr \<Rightarrow> Cache option" where
  "linked_front s a =
     (let h = (heap s)(a \<mapsto> (the (heap s a))\<lparr>nextp := cache s, prevp := None\<rparr>)
      in case cache s of None \<Rightarrow> h | Some b \<Rightarrow> h(b \<mapsto> (the (h b))\<lparr>prevp := Some a\<rparr>))"

lemma addToCache_eq:
  assumes "cache_rep s as" and "heap s a \<noteq> None"
  shows "addToCache Addr_of_cache (Some a) s =
    Some (Inr (True, s\<lparr>heap := linked_front s a, cache := Some a\<rparr>))"
proof (cases as)
  case Nil
  with assms have "cache s = None" by (simp add: cache_rep_def)
  with assms show ?thesis
    by (auto simp: addToCache_def linked_front_def get_cache_def set_cache_def)
next
  case (Cons b bs)
  with assms obtain c where "cache s = Some b" "heap s b = Some c" by (auto simp: cache_rep_def)
  with assms show ?thesis
    by (auto simp: addToCache_def linked_front_def get_cache_def set_cache_def Let_def)
qed

lemma linked_front_notin:
  "x \<noteq> a \<Longrightarrow> cache s \<noteq> Some x \<Longrightarrow> linked_front s a x = heap s x"
  by (auto simp: linked_front_def Let_def split: option.splits)

lemma strip_linked_front: "map_option strip (linked_front s a x) = map_option strip (heap s x)"
  if "heap s a \<noteq> None" and "\<And>b. cache s = Some b \<Longrightarrow> heap s b \<noteq> None"
  using that by (auto simp: linked_front_def Let_def strip_def split: option.splits)

lemma cache_rep_linked_front:
  assumes "cache_rep s as" and "heap s a \<noteq> None" and "a \<notin> set as"
  shows "cache_rep (s\<lparr>heap := linked_front s a, cache := Some a\<rparr>) (a # as)"
    and "head_ok (s\<lparr>heap := linked_front s a, cache := Some a\<rparr>)"
proof -
  show "cache_rep (s\<lparr>heap := linked_front s a, cache := Some a\<rparr>) (a # as)"
    using assms
    by (cases as) (auto simp: cache_rep_def linked_front_def Let_def)
  show "head_ok (s\<lparr>heap := linked_front s a, cache := Some a\<rparr>)"
    using assms by (cases as) (auto simp: cache_rep_def linked_front_def head_ok_def Let_def)
qed


lemma find_first:
  "P a \<Longrightarrow> (\<And>x. x \<in> set pre \<Longrightarrow> \<not> P x) \<Longrightarrow> find P (pre @ a # post) = Some a"
  by (induction pre) auto

lemma removeFromCache_inner:
  assumes rep: "cache_rep s (pre @ x # a # post)" and "wf_heap s" and "heap s e \<noteq> None"
    and first: "same_as s e a" "\<And>y. y \<in> set (pre @ [x]) \<Longrightarrow> \<not> same_as s e y"
  shows "removeFromCache Addr_of_cache (Some e) s =
    Some (Inr (True, log_call (Free a) (s\<lparr>heap := unlinked (heap s) x a post\<rparr>)))"
proof -
  have "find (same_as s e) (pre @ x # a # post) = Some a"
    using find_first [of "same_as s e" a "pre @ [x]" post] first by simp
  moreover obtain cx ca where h: "heap s x = Some cx" "heap s a = Some ca"
    using cache_rep_entry [OF rep] by fastforce
  moreover have prev: "prevp ca = Some x"
    using dls_prev [of "heap s" "cache s" pre x a post] rep h by (simp add: cache_rep_def)
  moreover have nxt: "nextp ca = (case post of [] \<Rightarrow> None | b # _ \<Rightarrow> Some b)"
    using dls_next [of "heap s" "cache s" "pre @ [x]" a post ca] rep h by (simp add: cache_rep_def)
  moreover have "distinct (pre @ x # a # post)" using rep by (simp add: cache_rep_def)
  moreover have "post = b # bs \<Longrightarrow> heap s b \<noteq> None" for b bs
    using cache_rep_entry [OF rep, of b] by auto
  ultimately show ?thesis using search_same [OF rep assms(2)] assms(3)
    by (cases post)
       (auto simp: removeFromCache_def get_cache_def unlink_node_def free_Cache_def unlinked_def)
qed

lemma removeFromCache_head:
  assumes rep: "cache_rep s (a # post)" and "wf_heap s" and "heap s e \<noteq> None"
    and "same_as s e a" and "head_ok s"
  shows "removeFromCache Addr_of_cache (Some e) s =
    Some (Inr (True, log_call (Free a) (s\<lparr>cache := nextp (the (heap s a)), heap := (heap s)(a := None)\<rparr>)))"
proof -
  obtain ca where "heap s a = Some ca" "prevp ca = None"
    using rep assms(5) by (auto simp: cache_rep_def head_ok_def)
  then show ?thesis using search_same [OF rep assms(2)] assms(3,4)
    by (auto simp: removeFromCache_def get_cache_def set_cache_def unlink_node_def free_Cache_def)
qed

lemma removeFromCache_dangling:
  assumes rep: "cache_rep s (a # post)" and "wf_heap s" and "heap s e \<noteq> None"
    and "same_as s e a" and "prevp (the (heap s a)) = Some x" and "heap s x = None"
  shows "removeFromCache Addr_of_cache (Some e) s = Some (Inl UseAfterFree)"
proof -
  obtain ca where "heap s a = Some ca"
    using rep by (auto simp: cache_rep_def)
  then show ?thesis using search_same [OF rep assms(2)] assms(3-)
    by (auto simp: removeFromCache_def get_cache_def unlink_node_def modify_def)
qed

lemma removeFromCache_absent:
  assumes rep: "cache_rep s as" and "wf_heap s" and "heap s e \<noteq> None"
    and "\<And>y. y \<in> set as \<Longrightarrow> \<not> same_as s e y"
  shows "removeFromCache Addr_of_cache (Some e) s = Some (Inr (False, s))"
proof -
  have "find (same_as s e) as = None" using assms(4) by (auto simp: find_None_iff)
  then show ?thesis using search_same [OF rep assms(2)] assms(3)
    by (auto simp: removeFromCache_def get_cache_def)
qed

text \<open>The list after an entry was unlinked.\<close>

lemma cache_rep_unlinked:
  assumes "cache_rep s (pre @ x # a # post)"
  shows "cache_rep (log_call c (s\<lparr>heap := unlinked (heap s) x a post\<rparr>)) (pre @ x # post)"
proof -
  have "unlinked (heap s) x a post y \<noteq> None \<Longrightarrow> heap s y \<noteq> None" for y
    using assms cache_rep_entry [OF assms, of x] cache_rep_entry [OF assms, of y]
    by (cases post) (auto simp: unlinked_def split: if_splits)
  then show ?thesis using assms dls_unlink [of "heap s" "cache s" pre x a post]
    by (auto simp: cache_rep_def log_call_def)
qed

lemma strip_unlinked:
  assumes "cache_rep s (pre @ x # a # post)" and "y \<noteq> a"
  shows "map_option strip (unlinked (heap s) x a post y) = map_option strip (heap s y)"
  using assms cache_rep_entry [OF assms(1), of x] cache_rep_entry [OF assms(1), of y]
  by (cases post) (auto simp: unlinked_def strip_def)

lemma head_ok_unlinked:
  assumes rep: "cache_rep s (pre @ x # a # post)" and "head_ok s"
  shows "head_ok (log_call c (s\<lparr>heap := unlinked (heap s) x a post\<rparr>))"
proof -
  obtain b where b: "cache s = Some b" "b \<in> set (pre @ [x])"
    using cache_rep_head [OF rep] by (cases pre) auto
  have "map_option prevp (unlinked (heap s) x a post b) = map_option prevp (heap s b)"
    using b(2) rep cache_rep_entry [OF rep, of x]
    by (cases post) (auto simp: unlinked_def cache_rep_def)
  moreover have "map_option prevp (heap s b) = Some None"
    using assms(2) b(1) by (simp only: head_ok_def simp_thms)
  ultimately have "map_option prevp (unlinked (heap s) x a post b) = Some None"
    by (rule trans)
  with b(1) show ?thesis by (simp add: head_ok_def)
qed

lemma cache_rep_drop_head:
  assumes "cache_rep s (a # post)"
  shows "cache_rep (log_call c (s\<lparr>cache := nextp (the (heap s a)), heap := (heap s)(a := None)\<rparr>)) post"
  using assms by (auto simp: cache_rep_def log_call_def)


lemma entry_of_strip_eq:
  "map_option strip (heap t x) = map_option strip (heap s x) \<Longrightarrow> heap s x \<noteq> None \<Longrightarrow> entry_of t x = entry_of s x"
  by (auto simp: entry_of_def)

text \<open>Removal with its effect on the whole heap.\<close>

lemma removeFromCache_runs:
  assumes rep: "cache_rep s (pre @ a # post)" and wf: "wf_heap s" and "head_ok s"
    and "heap s e \<noteq> None" and "same_as s e a" and "\<And>y. y \<in> set pre \<Longrightarrow> \<not> same_as s e y"
  shows "runs_to (removeFromCache Addr_of_cache (Some e)) s (\<lambda>r t.
    r \<and> cache_rep t (pre @ post) \<and> heap t a = None \<and> (pre \<noteq> [] \<longrightarrow> head_ok t) \<and>
    hist t = Free a # hist s \<and> (\<forall>x. x \<noteq> a \<longrightarrow> map_option strip (heap t x) = map_option strip (heap s x)))"
proof (cases pre rule: rev_cases)
  case Nil
  with assms show ?thesis
    using removeFromCache_head [of s a post e] cache_rep_drop_head [of s a post]
    by (auto simp: runs_to_def)
next
  case (snoc ps x)
  have rep': "cache_rep s (ps @ x # a # post)" using rep snoc by simp
  moreover have "unlinked (heap s) x a post a = None" by (simp add: unlinked_def Let_def)
  ultimately show ?thesis
    using removeFromCache_inner [OF rep' wf assms(4,5)] assms(6) snoc strip_unlinked [OF rep']
      cache_rep_unlinked [OF rep'] head_ok_unlinked [OF rep' assms(3)]
    by (auto simp: runs_to_def)
qed

section \<open>The cache as an abstract table\<close>

locale lookup_table =
  fixes rep :: "'s \<Rightarrow> 'a list \<Rightarrow> bool"
    and ok :: "'s \<Rightarrow> bool"
    and data :: "'s \<Rightarrow> 'a \<Rightarrow> 'd"
    and fresh :: "'s \<Rightarrow> 'a \<Rightarrow> bool"
    and add :: "'a \<Rightarrow> ('s, bool) prog"
    and good :: "'k \<Rightarrow> bool"
    and matches :: "'k \<Rightarrow> 'd \<Rightarrow> bool"
    and lookup :: "'k \<Rightarrow> ('s, 'a option) prog"
  assumes lookup_find:
      "rep s as \<Longrightarrow> ok s \<Longrightarrow> good k \<Longrightarrow> lookup k s = ret (find (\<lambda>a. matches k (data s a)) as) s"
    and add_front: "rep s as \<Longrightarrow> ok s \<Longrightarrow> fresh s a \<Longrightarrow> a \<notin> set as \<Longrightarrow>
      runs_to (add a) s (\<lambda>r t. r \<and> rep t (a # as) \<and> ok t \<and> (\<forall>x \<in> set (a # as). data t x = data s x))"
begin

lemma lookup_added:
  assumes "rep s as" "ok s" "fresh s a" "a \<notin> set as" "good k" "matches k (data s a)"
  shows "runs_to (bnd (add a) (\<lambda>_. lookup k)) s (\<lambda>r t. r = Some a)"
  unfolding runs_to_bnd
  by (rule runs_to_mono [OF add_front [OF assms(1-4)]]) (use assms lookup_find in \<open>auto simp: runs_to_def\<close>)

lemma lookup_not_added:
  assumes "rep s as" "ok s" "fresh s a" "a \<notin> set as" "good k" "\<not> matches k (data s a)"
  shows "runs_to (bnd (add a) (\<lambda>_. lookup k)) s (\<lambda>r t. lookup k s = ret r s)"
  unfolding runs_to_bnd
proof (rule runs_to_mono [OF add_front [OF assms(1-4)]])
  fix r t assume *: "r \<and> rep t (a # as) \<and> ok t \<and> (\<forall>x \<in> set (a # as). data t x = data s x)"
  then have "find (\<lambda>x. matches k (data t x)) as = find (\<lambda>x. matches k (data s x)) as"
    by (intro find_cong) auto
  with * assms show "runs_to (lookup k) t (\<lambda>r t. lookup k s = ret r s)"
    using lookup_find [of t "a # as" k] lookup_find [OF assms(1,2,5)] by (auto simp: runs_to_def)
qed

lemma lookup_sound:
  assumes "rep s as" "ok s" "good k" "lookup k s = Some (Inr (Some a, t))"
  shows "a \<in> set as \<and> matches k (data s a) \<and> t = s"
  using assms lookup_find [OF assms(1-3)] by (auto simp: find_Some_iff)

lemma lookup_complete:
  assumes "rep s as" "ok s" "good k" "lookup k s = Some (Inr (None, t))" "a \<in> set as"
  shows "\<not> matches k (data s a)"
  using assms lookup_find [OF assms(1-3)] by (auto simp: find_None_iff)

end

lemma entry_linked_front:
  assumes "cache_rep s as" and "heap s a \<noteq> None" and "heap s x \<noteq> None"
  shows "entry_of (s\<lparr>heap := linked_front s a, cache := p\<rparr>) x = entry_of s x"
proof -
  have "cache s = Some b \<Longrightarrow> heap s b \<noteq> None" for b
    using assms(1) by (cases as) (auto simp: cache_rep_def)
  then have "map_option strip (linked_front s a x) = map_option strip (heap s x)"
    using strip_linked_front [OF assms(2)] by blast
  with assms(3) show ?thesis by (auto simp: entry_of_def)
qed

lemma wf_Cache_strip [simp]: "wf_Cache (strip c) = wf_Cache c"
  by (simp add: wf_Cache_def strip_def)

lemma wf_heap_stripI:
  "wf_heap s \<Longrightarrow> (\<And>x. map_option strip (heap t x) = map_option strip (heap s x) \<or> heap t x = None) \<Longrightarrow> wf_heap t"
  unfolding wf_heap_def
  by (metis (no_types, lifting) map_option_eq_Some option.distinct(1) option.simps(9) wf_Cache_strip)

lemma addToCache_runs:
  assumes "cache_rep s as" and "wf_heap s" and "heap s a \<noteq> None" and "a \<notin> set as"
  shows "runs_to (addToCache Addr_of_cache (Some a)) s
    (\<lambda>r t. r \<and> cache_rep t (a # as) \<and> wf_heap t \<and> (\<forall>x \<in> set (a # as). entry_of t x = entry_of s x))"
proof (rule runs_toI, rule addToCache_eq [OF assms(1,3)], intro conjI ballI)
  let ?t = "s\<lparr>heap := linked_front s a, cache := Some a\<rparr>"
  show "cache_rep ?t (a # as)" by (rule cache_rep_linked_front [OF assms(1,3,4)])
  have "cache s = Some b \<Longrightarrow> heap s b \<noteq> None" for b
    using assms(1) by (cases as) (auto simp: cache_rep_def)
  then show "wf_heap ?t"
    using strip_linked_front [OF assms(3)] by (intro wf_heap_stripI [OF assms(2)]) simp
  show "entry_of ?t x = entry_of s x" if "x \<in> set (a # as)" for x
    using that assms by (auto intro!: entry_linked_front dest: cache_rep_entry)
qed simp

lemma entry_simps:
  "ipaddress (entry_of s a) = ipaddress (the (heap s a))" "domain_socket (entry_of s a) = domain_socket (the (heap s a))"
  "state (entry_of s a) = state (the (heap s a))" "hw (entry_of s a) = hw (the (heap s a))"
  by (simp_all add: entry_of_def strip_def)

interpretation by_ip: lookup_table cache_rep wf_heap entry_of "\<lambda>s a. heap s a \<noteq> None"
    "\<lambda>a. addToCache Addr_of_cache (Some a)" wf_sockaddr "\<lambda>ip c. ipaddress c = ip"
    "\<lambda>ip s. getCacheByIpAddr (cache s) (Some ip) s"
  by unfold_locales (simp add: getCacheByIpAddr_find entry_simps, rule addToCache_runs)

interpretation by_socket: lookup_table cache_rep wf_heap entry_of "\<lambda>s a. heap s a \<noteq> None"
    "\<lambda>a. addToCache Addr_of_cache (Some a)" "\<lambda>_. True" "\<lambda>fd c. domain_socket c = fd"
    "\<lambda>fd s. getCacheBySocket (cache s) fd s"
  by unfold_locales (simp add: getCacheBySocket_find entry_simps, rule addToCache_runs)

interpretation by_hwaddr: lookup_table cache_rep wf_heap entry_of "\<lambda>s a. heap s a \<noteq> None"
    "\<lambda>a. addToCache Addr_of_cache (Some a)" "\<lambda>ha. 8 \<le> length ha"
    "\<lambda>ha c. take (unat (sll_halen (hw c))) (sll_addr (hw c)) = take (unat (sll_halen (hw c))) ha"
    "\<lambda>ha s. getCacheByHWAddr (cache s) (Some ha) s"
  by unfold_locales (simp add: getCacheByHWAddr_find entry_simps Let_def, rule addToCache_runs)

section \<open>Lists that are no longer lists\<close>

lemma search_cycle:
  assumes cyc: "\<And>x. x \<in> C \<Longrightarrow> \<exists>c y. heap s x = Some c \<and> nextp c = Some y \<and> y \<in> C"
    and miss: "\<And>x. x \<in> C \<Longrightarrow> test x s = Some (Inr (False, s))"
    and "a \<in> C"
  shows "search test (Some a) s = None"
proof (rule ccontr)
  assume "search test (Some a) s \<noteq> None"
  then obtain r where r: "search test (Some a) s = Some r" by auto
  have "\<not> (test = test \<and> (\<exists>x\<in>C. Some a = Some x) \<and> s = s)"
  proof (rule search.raw_induct [where P = "\<lambda>tst p t r. \<not> (tst = test \<and> (\<exists>x\<in>C. p = Some x) \<and> t = s)", OF _ r])
    fix srch tst node t r
    assume IH: "\<And>tst node t r. srch tst node t = Some r \<Longrightarrow> \<not> (tst = test \<and> (\<exists>x\<in>C. node = Some x) \<and> t = s)"
      and eq: "(case node of None \<Rightarrow> ret None t | Some a \<Rightarrow> bnd (tst a) (\<lambda>hit s1.
         if hit then ret (Some a) s1 else bnd (load node) (\<lambda>c s2. srch tst (nextp c) s2) s1) t) = Some r"
    show "\<not> (tst = test \<and> (\<exists>x\<in>C. node = Some x) \<and> t = s)"
    proof
      assume "tst = test \<and> (\<exists>x\<in>C. node = Some x) \<and> t = s"
      then obtain x c y where "x \<in> C" "node = Some x" "heap s x = Some c" "nextp c = Some y" "y \<in> C"
          "tst = test" "t = s" using cyc by blast
      moreover from this miss have "test x s = Some (Inr (False, s))" by blast
      ultimately have "srch test (Some y) s = Some r" using eq by (simp add: bnd_def)
      with IH \<open>y \<in> C\<close> show False by blast
    qed
  qed
  with \<open>a \<in> C\<close> show False by blast
qed


lemma readd_cycle:
  assumes rep: "cache_rep s (pre @ a # post)" and "x \<in> insert a (set pre)"
  shows "\<exists>c y. linked_front s a x = Some c \<and> nextp c = Some y \<and> y \<in> insert a (set pre)"
proof (cases "x = a")
  case True
  obtain b where b: "cache s = Some b" "b \<in> insert a (set pre)"
    using cache_rep_head [OF rep] by (cases pre) auto
  then have "linked_front s a a \<noteq> None" "nextp (the (linked_front s a a)) = Some b"
    by (auto simp: linked_front_def Let_def)
  with True b show ?thesis by auto
next
  case False
  with assms obtain xs ys where pre: "pre = xs @ x # ys" by (auto simp: in_set_conv_decomp)
  obtain c where c: "heap s x = Some c" using cache_rep_entry [OF rep, of x] pre by auto
  have "nextp c = (case ys @ a # post of [] \<Rightarrow> None | b # _ \<Rightarrow> Some b)"
    using dls_next [of "heap s" "cache s" xs x "ys @ a # post" c] rep c pre by (simp add: cache_rep_def)
  then have "\<exists>y \<in> insert a (set pre). nextp c = Some y" using pre by (cases ys) auto
  moreover have "\<exists>c'. linked_front s a x = Some c' \<and> nextp c' = nextp c"
    using False c by (auto simp: linked_front_def Let_def split: option.splits)
  ultimately show ?thesis by auto
qed

lemma domain_socket_linked_front:
  "heap s a \<noteq> None \<Longrightarrow> heap s x = Some c \<Longrightarrow> cache s = Some b \<Longrightarrow> heap s b \<noteq> None \<Longrightarrow>
   map_option domain_socket (linked_front s a x) = Some (domain_socket c)"
  by (auto simp: linked_front_def Let_def)

lemma updateCache_eq:
  assumes rep: "cache_rep s as" and wf: "wf_heap s" and e: "heap s e = Some x"
    and hit: "find (same_as s e) as = Some a"
  shows "updateCache (cache s) (Some e) s = Some (Inr (True,
    s\<lparr>heap := (heap s)(a \<mapsto> (the (heap s a))\<lparr>hw := (hw (the (heap s a)))\<lparr>sll_hatype := sll_hatype (hw x)\<rparr>\<rparr>)\<rparr>))"
proof -
  let ?n = "unat (sll_halen (hw x))"
  from hit have "a \<in> set as" and same: "same_as s e a" by (auto simp: find_Some_iff)
  then obtain c where c: "heap s a = Some c" using cache_rep_entry [OF rep] by blast
  have len: "length (sll_addr (hw c)) = 8" "length (sll_addr (hw x)) = 8" "?n \<le> 8"
    using wf_heapD [OF wf c] wf_heapD [OF wf e] by (auto simp: wf_Cache_def wf_hwaddr_def)
  have eqs: "ipaddress c = ipaddress x" "sll_ifindex (hw c) = sll_ifindex (hw x)"
      "take ?n (sll_addr (hw c)) = take ?n (sll_addr (hw x))"
    using same c e by (auto simp: same_entry_def)
  have cpy: "memcpy (sll_addr (hw c)) 0 (sll_addr (hw x)) ?n = Inr (sll_addr (hw c))"
    using len eqs(3) by (simp add: memcpy_prefix) (metis append_take_drop_id)
  have same_upd: "c\<lparr>ipaddress := ipaddress x, hw := (hw c)\<lparr>sll_ifindex := sll_ifindex (hw x), sll_hatype := t\<rparr>\<rparr> =
      c\<lparr>hw := (hw c)\<lparr>sll_hatype := t\<rparr>\<rparr>" for t
    by (simp add: eqs(1,2) [symmetric])
  have "cache s \<noteq> None" using \<open>a \<in> set as\<close> cache_rep_head [OF rep] by (cases as) auto
  then show ?thesis using search_same [OF rep wf e] hit c e cpy
    by (cases "a = e") (auto simp: updateCache_def same_upd)
qed

section \<open>A concrete cache\<close>

text \<open>Two linked entries and one that is allocated but not linked, for the instances below.\<close>

definition demo_cache :: cstate where
  "demo_cache = \<lparr>hist = [],
     heap = [10 \<mapsto> zero_Cache\<lparr>ipaddress := mk_sockaddr_in AF_INET 1, domain_socket := 5, nextp := Some 20\<rparr>,
             20 \<mapsto> zero_Cache\<lparr>ipaddress := mk_sockaddr_in AF_INET 2, domain_socket := 6, prevp := Some 10\<rparr>,
             30 \<mapsto> zero_Cache\<lparr>ipaddress := mk_sockaddr_in AF_INET 2\<rparr>],
     brk = 40, cache = Some 10\<rparr>"

lemma demo_cache_rep: "cache_rep demo_cache [10, 20]"
  by (auto simp: demo_cache_def cache_rep_def zero_Cache_def)

lemma demo_cache_wf: "wf_heap demo_cache"
  by (auto simp: demo_cache_def wf_heap_def wf_Cache_def zero_Cache_def zero_hwaddr_def wf_hwaddr_def)

lemma demo_cache_head: "head_ok demo_cache"
  by (auto simp: demo_cache_def head_ok_def zero_Cache_def)

lemma demo_cache_heap:
  "heap demo_cache 10 = Some (zero_Cache\<lparr>ipaddress := mk_sockaddr_in AF_INET 1, domain_socket := 5, nextp := Some 20\<rparr>)"
  "heap demo_cache 20 = Some (zero_Cache\<lparr>ipaddress := mk_sockaddr_in AF_INET 2, domain_socket := 6, prevp := Some 10\<rparr>)"
  "heap demo_cache 30 = Some (zero_Cache\<lparr>ipaddress := mk_sockaddr_in AF_INET 2\<rparr>)"
  by (simp_all add: demo_cache_def)

lemmas demo_cache_facts = demo_cache_rep demo_cache_wf demo_cache_head demo_cache_heap

section \<open>What the cache promises\<close>

text \<open>C26: adding an entry that is allocated and not yet in the list succeeds, puts it in front of
  the list, leaves the data of every entry unchanged and gives the new head no predecessor.\<close>

theorem cache_add_refines:
  assumes "cache_rep s as" and "wf_heap s" and "heap s a \<noteq> None" and "a \<notin> set as"
  shows "runs_to (addToCache Addr_of_cache (Some a)) s (\<lambda>r t.
    r \<and> cache_rep t (a # as) \<and> head_ok t \<and> hist t = hist s \<and> (\<forall>x \<in> set (a # as). entry_of t x = entry_of s x))"
proof -
  have "entry_of (s\<lparr>heap := linked_front s a, cache := Some a\<rparr>) x = entry_of s x" if "x \<in> set (a # as)" for x
    using that assms cache_rep_entry [OF assms(1), of x] by (auto intro!: entry_linked_front)
  then show ?thesis
    using addToCache_eq [OF assms(1,3)] cache_rep_linked_front [OF assms(1,3,4)]
    by (auto simp: runs_to_def)
qed

theorem cache_add_refines_witness:
  "runs_to (addToCache Addr_of_cache (Some 30)) demo_cache (\<lambda>r t.
    r \<and> cache_rep t [30, 10, 20] \<and> head_ok t \<and> hist t = hist demo_cache \<and>
    (\<forall>x \<in> set [30, 10, 20]. entry_of t x = entry_of demo_cache x))"
  by (rule cache_add_refines) (simp_all add: demo_cache_facts)

text \<open>C6: removal searches for the first entry that is the same as the given one and, when the
  head of the list has no predecessor, takes exactly that entry out of the list, frees it and leaves the
  others as they were.\<close>

theorem cache_remove_refines:
  assumes rep: "cache_rep s (pre @ a # post)" and wf: "wf_heap s" and "head_ok s"
    and "heap s e \<noteq> None" and "same_as s e a" and "\<And>y. y \<in> set pre \<Longrightarrow> \<not> same_as s e y"
  shows "runs_to (removeFromCache Addr_of_cache (Some e)) s (\<lambda>r t.
    r \<and> cache_rep t (pre @ post) \<and> heap t a = None \<and> (pre \<noteq> [] \<longrightarrow> head_ok t) \<and>
    hist t = Free a # hist s \<and> (\<forall>x \<in> set (pre @ post). entry_of t x = entry_of s x))"
proof -
  have data: "entry_of t x = entry_of s x" if x: "x \<in> set (pre @ post)"
      and *: "\<forall>y. y \<noteq> a \<longrightarrow> map_option strip (heap t y) = map_option strip (heap s y)" for t x
  proof -
    have "x \<noteq> a" using x rep by (auto simp: cache_rep_def)
    moreover obtain d where "heap s x = Some d" using x cache_rep_entry [OF rep, of x] by auto
    ultimately show ?thesis using * by (intro entry_of_strip_eq) auto
  qed
  have "runs_to (removeFromCache Addr_of_cache (Some e)) s (\<lambda>r t.
      r \<and> cache_rep t (pre @ post) \<and> heap t a = None \<and> (pre \<noteq> [] \<longrightarrow> head_ok t) \<and>
      hist t = Free a # hist s \<and> (\<forall>x. x \<noteq> a \<longrightarrow> map_option strip (heap t x) = map_option strip (heap s x)))"
    using assms by (rule removeFromCache_runs)
  then show ?thesis by (rule runs_to_mono) (auto intro!: data)
qed

theorem cache_remove_refines_witness:
  "runs_to (removeFromCache Addr_of_cache (Some 30)) demo_cache (\<lambda>r t.
    r \<and> cache_rep t ([10] @ []) \<and> heap t 20 = None \<and> ([10::nat] \<noteq> [] \<longrightarrow> head_ok t) \<and>
    hist t = Free 20 # hist demo_cache \<and> (\<forall>x \<in> set ([10] @ []). entry_of t x = entry_of demo_cache x))"
  by (rule cache_remove_refines) (simp_all add: demo_cache_facts same_entry_def zero_Cache_def)

text \<open>C27: after an entry was added, a lookup by IP address finds that entry if it has the
  address, and otherwise finds what it found before.\<close>

theorem cache_lookup_after_add:
  assumes "cache_rep s as" and "wf_heap s" and "heap s a \<noteq> None" and "a \<notin> set as" and "wf_sockaddr ip"
  shows "runs_to (bnd (addToCache Addr_of_cache (Some a)) (\<lambda>_ s. getCacheByIpAddr (cache s) (Some ip) s)) s
    (\<lambda>r t. if ipaddress (entry_of s a) = ip then r = Some a
           else getCacheByIpAddr (cache s) (Some ip) s = ret r s)"
proof (cases "ipaddress (entry_of s a) = ip")
  case True
  then show ?thesis using by_ip.lookup_added [of s as a ip] assms by simp
next
  case False
  then show ?thesis using by_ip.lookup_not_added [of s as a ip] assms by simp
qed

theorem cache_lookup_after_add_witness:
  "runs_to (bnd (addToCache Addr_of_cache (Some 30)) (\<lambda>_ s. getCacheByIpAddr (cache s) (Some (mk_sockaddr_in AF_INET 2)) s))
    demo_cache (\<lambda>r t. r = Some 30)"
  using cache_lookup_after_add [of demo_cache "[10, 20]" 30 "mk_sockaddr_in AF_INET 2"]
  by (simp add: demo_cache_facts entry_simps)

text \<open>C38: removing the head of the list leaves the predecessor link of the new head
  pointing to the freed entry, so that removing the new head next writes through a dangling pointer.\<close>

theorem cache_second_head_removal_faults:
  assumes "cache_rep s (a # b # post)" and "wf_heap s" and "head_ok s"
  shows "bnd (removeFromCache Addr_of_cache (Some a)) (\<lambda>_. removeFromCache Addr_of_cache (Some b)) s
    = Some (Inl UseAfterFree)"
proof -
  let ?t = "log_call (Free a) (s\<lparr>cache := nextp (the (heap s a)), heap := (heap s)(a := None)\<rparr>)"
  obtain ca cb where h: "heap s a = Some ca" "heap s b = Some cb" "prevp cb = Some a" "a \<noteq> b"
    using assms(1) by (auto simp: cache_rep_def)
  have "cache_rep ?t (b # post)" by (rule cache_rep_drop_head [OF assms(1)])
  moreover have "wf_heap ?t" using assms(2) by (auto simp: wf_heap_def)
  ultimately have "removeFromCache Addr_of_cache (Some b) ?t = Some (Inl UseAfterFree)"
    using h by (intro removeFromCache_dangling [of ?t b post b a]) auto
  moreover have "removeFromCache Addr_of_cache (Some a) s = Some (Inr (True, ?t))"
    using assms h by (intro removeFromCache_head) auto
  ultimately show ?thesis by (simp add: bnd_def)
qed

theorem cache_second_head_removal_faults_witness:
  "bnd (removeFromCache Addr_of_cache (Some 10)) (\<lambda>_. removeFromCache Addr_of_cache (Some 20)) demo_cache
    = Some (Inl UseAfterFree)"
  by (rule cache_second_head_removal_faults [of _ _ _ "[]"]) (simp_all add: demo_cache_facts)

text \<open>C39: adding an entry that is already in the list succeeds but closes the list into a
  cycle, and a lookup of a socket no entry has then never returns.\<close>

theorem cache_readd_diverges:
  assumes rep: "cache_rep s as" and "a \<in> set as" and "\<And>x. x \<in> set as \<Longrightarrow> domain_socket (entry_of s x) \<noteq> sock"
  shows "runs_to (addToCache Addr_of_cache (Some a)) s (\<lambda>r t. r \<and> getCacheBySocket (cache t) sock t = None)"
proof -
  let ?t = "s\<lparr>heap := linked_front s a, cache := Some a\<rparr>"
  obtain pre post where as: "as = pre @ a # post" using assms(2) by (auto simp: in_set_conv_decomp)
  have a: "heap s a \<noteq> None" using cache_rep_entry [OF rep assms(2)] by auto
  obtain b where b: "cache s = Some b" "heap s b \<noteq> None"
    using rep assms(2) by (cases as) (auto simp: cache_rep_def)
  have "search (\<lambda>node. bnd (load (Some node)) (\<lambda>c. ret (domain_socket c = sock))) (Some a) ?t = None"
  proof (rule search_cycle [where C = "insert a (set pre)"])
    fix x assume x: "x \<in> insert a (set pre)"
    then show "\<exists>c y. heap ?t x = Some c \<and> nextp c = Some y \<and> y \<in> insert a (set pre)"
      using readd_cycle [of s pre a post x] rep as by simp
    obtain d where "heap s x = Some d" using x as cache_rep_entry [OF rep, of x] by auto
    then have "map_option domain_socket (heap ?t x) = Some (domain_socket d)" "domain_socket d \<noteq> sock"
      using domain_socket_linked_front [OF a _ b] assms(3) [of x] x as by (auto simp: entry_simps)
    then show "bnd (load (Some x)) (\<lambda>c. ret (domain_socket c = sock)) ?t = Some (Inr (False, ?t))"
      by (auto simp: bnd_def)
  qed simp
  then show ?thesis using addToCache_eq [OF rep a] by (auto simp: runs_to_def getCacheBySocket_def)
qed

theorem cache_readd_diverges_witness:
  "runs_to (addToCache Addr_of_cache (Some 20)) demo_cache (\<lambda>r t. r \<and> getCacheBySocket (cache t) 7 t = None)"
  by (rule cache_readd_diverges [OF demo_cache_rep]) (auto simp: demo_cache_facts entry_simps)

text \<open>\<open>updateCache\<close> changes the first entry that is the same as the given one, and since
  same entries already agree on the IP address, the interface and the hardware address, all that it can
  change is the hardware type.\<close>

lemma cache_update_only_hatype:
  assumes "cache_rep s as" and "wf_heap s" and "heap s e = Some x" and "find (same_as s e) as = Some a"
  shows "updateCache (cache s) (Some e) s = Some (Inr (True, s\<lparr>heap := (heap s)(a \<mapsto>
    (the (heap s a))\<lparr>hw := (hw (the (heap s a)))\<lparr>sll_hatype := sll_hatype (hw x)\<rparr>\<rparr>)\<rparr>))"
  by (rule updateCache_eq [OF assms])

lemma cache_update_only_hatype_witness:
  "updateCache (cache demo_cache) (Some 30) demo_cache = Some (Inr (True, demo_cache\<lparr>heap := (heap demo_cache)(20 \<mapsto>
    (the (heap demo_cache 20))\<lparr>hw := (hw (the (heap demo_cache 20)))\<lparr>sll_hatype := 0\<rparr>\<rparr>)\<rparr>))"
  using cache_update_only_hatype [OF demo_cache_rep demo_cache_wf demo_cache_heap(3), of 20]
  by (simp add: demo_cache_facts same_entry_def zero_Cache_def zero_hwaddr_def)

text \<open>Every operation of the cache refuses a null list or a null entry and leaves the state
  alone.\<close>

lemma cache_null_arguments:
  "addToCache l None s = ret False s \<and> addToCache Null_list p s = ret False s \<and>
   removeFromCache l None s = ret False s \<and> removeFromCache Null_list p s = ret False s \<and>
   updateCache q None s = ret False s \<and> updateCache None p s = ret False s \<and>
   getFromCache q None s = ret None s \<and> getFromCache None p s = ret None s \<and>
   isSameCache p None s = ret False s \<and> isSameCache None p s = ret False s \<and>
   getCacheByIpAddr q None s = ret None s \<and> getCacheByHWAddr q None s = ret None s \<and>
   getCacheBySocket None fd s = ret None s"
  by (simp add: addToCache_def removeFromCache_def updateCache_def getFromCache_def isSameCache_def
      getCacheByIpAddr_def getCacheByHWAddr_def getCacheBySocket_def)

end
