(* ===== verification/Arp_Packet.thy ===== *)
theory Arp_Packet
  imports Wire
begin

text \<open>
  The packets of the ARP daemon (\<open>arp.h\<close> and the packet functions of \<open>arp.c\<close>): the header
  structure and its layout, building a packet in a caller's buffer, validating a received
  one, sending and receiving Ethernet frames, and the printing of a packet, which reads
  the variable-length part of the structure. Every copy is checked against the size of
  the array it reads and the array it writes.
\<close>

section \<open>The structure\<close>

abbreviation (input) ETH_P_ARP_SH :: u16 where "ETH_P_ARP_SH \<equiv> 0xF31F"
abbreviation (input) ARP_ID :: u16 where "ARP_ID \<equiv> 0xDEAD"
abbreviation (input) ARP_MAXLEN :: nat where "ARP_MAXLEN \<equiv> 68"
abbreviation (input) ARP_HDRLEN :: nat where "ARP_HDRLEN \<equiv> 10"
abbreviation (input) ARP_MAXHWLEN :: byte where "ARP_MAXHWLEN \<equiv> 8"
abbreviation (input) ARP_MAXPRLEN :: byte where "ARP_MAXPRLEN \<equiv> 16"
abbreviation (input) ARP_MAXDATALEN :: nat where "ARP_MAXDATALEN \<equiv> 48"

record arp_hdr =
  arp_id :: u16
  hard_type :: u16
  prot_type :: u16
  hard_len :: byte
  prot_len :: byte
  arp_op :: u16
  arp_data :: "byte list"

definition wf_arp_hdr :: "arp_hdr \<Rightarrow> bool" where
  "wf_arp_hdr a \<longleftrightarrow> length (arp_data a) = ARP_MAXDATALEN"

definition zero_arp_hdr :: arp_hdr where
  "zero_arp_hdr = \<lparr>arp_id = 0, hard_type = 0, prot_type = 0, hard_len = 0, prot_len = 0, arp_op = 0,
     arp_data = replicate ARP_MAXDATALEN 0\<rparr>"

definition zero_ethhdr :: ethhdr where
  "zero_ethhdr = \<lparr>h_dest = replicate 6 0, h_source = replicate 6 0, h_proto = 0\<rparr>"

definition enc_arp_fields :: "u16 \<Rightarrow> u16 \<Rightarrow> u16 \<Rightarrow> byte \<Rightarrow> byte \<Rightarrow> u16 \<Rightarrow> byte list" where
  "enc_arp_fields i ht pt hl pl opc = le16 i @ le16 ht @ le16 pt @ [hl, pl] @ le16 opc"

definition enc_arp_hdr :: "arp_hdr \<Rightarrow> byte list" where
  "enc_arp_hdr a = enc_arp_fields (arp_id a) (hard_type a) (prot_type a) (hard_len a) (prot_len a) (arp_op a) @ arp_data a"

definition dec_arp_hdr :: "byte list \<Rightarrow> arp_hdr" where
  "dec_arp_hdr bs = \<lparr>arp_id = un16 bs, hard_type = un16 (drop 2 bs), prot_type = un16 (drop 4 bs),
     hard_len = bs ! 6, prot_len = bs ! 7, arp_op = un16 (drop 8 bs), arp_data = take 48 (drop 10 bs)\<rparr>"

text \<open>The macros that point into \<open>data\<close>: what is stored from there to the end of the array.\<close>

definition ARP_SHA :: "arp_hdr \<Rightarrow> byte list" where
  "ARP_SHA a = arp_data a"

definition ARP_SPA :: "arp_hdr \<Rightarrow> byte list" where
  "ARP_SPA a = drop (unat (hard_len a)) (arp_data a)"

definition ARP_THA :: "arp_hdr \<Rightarrow> byte list" where
  "ARP_THA a = drop (unat (hard_len a) + unat (prot_len a)) (arp_data a)"

definition ARP_TPA :: "arp_hdr \<Rightarrow> byte list" where
  "ARP_TPA a = drop (2 * unat (hard_len a) + unat (prot_len a)) (arp_data a)"

definition ARP_DATALEN :: "arp_hdr \<Rightarrow> nat" where
  "ARP_DATALEN a = 2 * unat (hard_len a) + 2 * unat (prot_len a)"

section \<open>Printing a packet\<close>

definition digit_char :: "nat \<Rightarrow> char" where
  "digit_char d = (if d < 10 then char_of (48 + d) else char_of (87 + d))"

definition upper_digit_char :: "nat \<Rightarrow> char" where
  "upper_digit_char d = (if d < 10 then char_of (48 + d) else char_of (55 + d))"

fun dec_str :: "nat \<Rightarrow> string" where
  "dec_str n = (if n < 10 then [digit_char n] else dec_str (n div 10) @ [digit_char (n mod 10)])"

fun hex_str :: "nat \<Rightarrow> string" where
  "hex_str n = (if n < 16 then [digit_char n] else hex_str (n div 16) @ [digit_char (n mod 16)])"

declare dec_str.simps [simp del] hex_str.simps [simp del]

text \<open>The conversion \<open>%02hhX\<close>.\<close>

definition hex2 :: "byte \<Rightarrow> string" where
  "hex2 b = [upper_digit_char (unat b div 16), upper_digit_char (unat b mod 16)]"

text \<open>A hardware address: all bytes but the last are followed by a colon, and the last is read even when the length is 0.\<close>

definition print_ha :: "byte list \<Rightarrow> nat \<Rightarrow> stop + string" where
  "print_ha p n = sbnd (get_bytes p 0 (max 1 n)) (\<lambda>bs.
     Inr (concat (map (\<lambda>b. hex2 b @ '':'') (butlast bs)) @ hex2 (last bs)))"

definition print_pa :: "byte list \<Rightarrow> nat \<Rightarrow> stop + string" where
  "print_pa p n = sbnd (get_bytes p 0 n) (\<lambda>bs. Inr (concat (map hex2 bs)))"

definition print_addresses :: "arp_hdr \<Rightarrow> stop + string" where
  "print_addresses arp =
     sbnd (print_ha (ARP_SHA arp) (unat (hard_len arp))) (\<lambda>sha.
     sbnd (print_pa (ARP_SPA arp) (unat (prot_len arp))) (\<lambda>spa.
     sbnd (print_ha (ARP_THA arp) (unat (hard_len arp))) (\<lambda>tha.
     sbnd (print_pa (ARP_TPA arp) (unat (prot_len arp))) (\<lambda>tpa.
     Inr ('' send HA: '' @ sha @ '' send PA: '' @ spa @ [CHR 0x0A] @ ''target HA: '' @ tha @
          '' target PA: '' @ tpa @ [CHR 0x0A])))))"

definition arp_summary :: "arp_hdr \<Rightarrow> string" where
  "arp_summary arp = ''hard size: '' @ dec_str (unat (hard_len arp)) @ '' prot size: '' @ dec_str (unat (prot_len arp)) @
     [CHR 0x0A] @ ''protocol type: '' @ hex_str (unat (prot_type arp)) @ '' hardware type: '' @
     hex_str (unat (hard_type arp)) @ [CHR 0x0A] @ ''id: '' @ hex_str (unat (arp_id arp)) @ '' op: '' @
     hex_str (unat (arp_op arp)) @ [CHR 0x0A]"

definition PRINT_ARP :: "arp_hdr \<Rightarrow> ('a world_scheme, unit) prog" where
  "PRINT_ARP arp =
     bnd (do_call (Out (arp_summary arp))) (\<lambda>_.
     bnd (pure (print_addresses arp)) (\<lambda>str. do_call (Out str)))"

section \<open>Building and validating\<close>

text \<open>One of the four addresses: zeroes when the caller passed no pointer.\<close>

definition put_addr :: "byte list \<Rightarrow> nat \<Rightarrow> byte list option \<Rightarrow> nat \<Rightarrow> stop + byte list" where
  "put_addr buf off src n = (case src of
       None \<Rightarrow> put_bytes buf off (replicate n 0)
     | Some bs \<Rightarrow> memcpy buf off bs n)"

definition build_arp ::
  "byte list option \<Rightarrow> int \<Rightarrow> u16 \<Rightarrow> u16 \<Rightarrow> byte \<Rightarrow> byte \<Rightarrow> u16 \<Rightarrow> byte list option \<Rightarrow> byte list option \<Rightarrow>
   byte list option \<Rightarrow> byte list option \<Rightarrow> stop + int \<times> byte list" where
  "build_arp start sz hdtype prtype hl pl opc send_hwa send_pro target_hwa target_pro =
     (let hlen = unat hl; plen = unat pl;
          sha = ARP_HDRLEN; spa = sha + hlen; tha = spa + plen; tpa = tha + hlen;
          len = int (ARP_HDRLEN + 2 * hlen + 2 * plen)
      in case start of
        None \<Rightarrow> Inr (0, [])
      | Some buf \<Rightarrow>
          if sz < len then Inr (0, buf)
          else
            sbnd (put_bytes buf 0 (enc_arp_fields (htons ARP_ID) (htons hdtype) (htons prtype) hl pl (htons opc))) (\<lambda>buf.
            sbnd (put_addr buf sha send_hwa hlen) (\<lambda>buf.
            sbnd (put_addr buf spa send_pro plen) (\<lambda>buf.
            sbnd (put_addr buf tha target_hwa hlen) (\<lambda>buf.
            sbnd (put_addr buf tpa target_pro plen) (\<lambda>buf.
            Inr (len, buf)))))))"

definition ntoh_arp :: "arp_hdr \<Rightarrow> arp_hdr" where
  "ntoh_arp arp = arp\<lparr>arp_id := ntohs (arp_id arp), hard_type := ntohs (hard_type arp),
     prot_type := ntohs (prot_type arp), arp_op := ntohs (arp_op arp)\<rparr>"

definition valid_arp :: "arp_hdr \<Rightarrow> bool" where
  "valid_arp arp =
     (let valid = True;
          valid = (if arp_id arp \<noteq> ARP_ID then False else valid);
          valid = (if hard_type arp \<noteq> ARPHRD_ETHER then False else valid);
          valid = (if prot_type arp \<noteq> PF_INET then False else valid);
          valid = (if hard_len arp > ARP_MAXHWLEN then False else valid);
          valid = (if prot_len arp > ARP_MAXPRLEN then False else valid);
          valid = (if arp_op arp \<noteq> ARPOP_REQUEST \<and> arp_op arp \<noteq> ARPOP_REPLY then False else valid)
      in valid)"

section \<open>Frames\<close>

definition copy_mac :: "byte list option \<Rightarrow> stop + byte list" where
  "copy_mac p = (case p of None \<Rightarrow> Inl NullDeref | Some bs \<Rightarrow> get_bytes bs 0 ETH_ALEN)"

text \<open>
  \<open>send_frame\<close> occurs twice, in \<open>arp.c\<close> and in \<open>ping.c\<close>, with the same text but for the protocol
  number of the frame.
\<close>

definition send_frame_as ::
  "u16 \<Rightarrow> os \<Rightarrow> int \<Rightarrow> byte list \<Rightarrow> int \<Rightarrow> byte list option \<Rightarrow> byte list option \<Rightarrow> u32 \<Rightarrow> ('a world_scheme, int) prog" where
  "send_frame_as proto os sock payload sz dstmac srcmac ifi_index =
     (if sz > ETH_DATA_LEN then ret 0
      else
        bnd (pure (copy_mac dstmac)) (\<lambda>dst.
        bnd (pure (copy_mac srcmac)) (\<lambda>src.
        bnd (pure (if sz < 0 then Inl OutOfBounds else get_bytes payload 0 (nat sz))) (\<lambda>body.
        let frame = enc_ethhdr \<lparr>h_dest = dst, h_source = src, h_proto = htons proto\<rparr> @ body;
            dest = \<lparr>ll_family = AF_PACKET, ll_protocol = htons proto, ll_ifindex = ifi_index, ll_hatype = 0,
                    ll_halen = of_nat ETH_ALEN, ll_addr = dst @ [0, 0]\<rparr>
        in bnd (sys os (Sendto_ll sock frame dest)) (\<lambda>nsent.
           if nsent < 0 then ret 0 else ret 1)))))"

definition send_frame ::
  "os \<Rightarrow> int \<Rightarrow> byte list \<Rightarrow> int \<Rightarrow> byte list option \<Rightarrow> byte list option \<Rightarrow> u32 \<Rightarrow> ('a world_scheme, int) prog" where
  "send_frame = send_frame_as ETH_P_ARP_SH"

text \<open>
  \<open>recv_frame\<close> returns the result of \<open>recvfrom\<close> and, in place of its output parameters, the
  headers (unchanged when the frame is too short) and the link-level source address.
\<close>

definition recv_frame ::
  "os \<Rightarrow> int \<Rightarrow> ethhdr \<Rightarrow> arp_hdr \<Rightarrow> ('a world_scheme, int \<times> ethhdr \<times> arp_hdr \<times> sockaddr_ll) prog" where
  "recv_frame os pf_socket eh arp =
     bnd (sys_recvfrom_ll os pf_socket ETH_FRAME_LEN) (\<lambda>(got, src). case got of
       None \<Rightarrow> ret (-1, eh, arp, src)
     | Some frame \<Rightarrow>
         let nread = length frame
         in if nread > ETH_HLEN + ARP_HDRLEN then
              bnd (pure (memcpy (enc_arp_hdr arp) 0 (drop ETH_HLEN frame) (nread - ETH_HLEN))) (\<lambda>bytes.
              let arp' = ntoh_arp (dec_arp_hdr bytes)
              in bnd (PRINT_ARP arp') (\<lambda>_. ret (int nread, dec_ethhdr frame, arp', src)))
            else ret (int nread, eh, arp, src))"

section \<open>Layout\<close>

lemma length_enc_arp_fields [simp]: "length (enc_arp_fields i ht pt hl pl opc) = 10"
  by (simp add: enc_arp_fields_def)

lemma wf_zero_arp_hdr [simp]: "wf_arp_hdr zero_arp_hdr"
  by (simp add: wf_arp_hdr_def zero_arp_hdr_def)

interpretation arp_wire: wire_format enc_arp_hdr dec_arp_hdr wf_arp_hdr 58
proof
  fix x r assume "wf_arp_hdr x"
  then show "length (enc_arp_hdr x) = 58" "dec_arp_hdr (enc_arp_hdr x @ r) = x"
    by (simp_all add: enc_arp_hdr_def enc_arp_fields_def dec_arp_hdr_def wf_arp_hdr_def nth_append)
qed

text \<open>What \<open>put_addr\<close> stores, and that the caller's array is long enough for it.\<close>

definition addr_bytes :: "nat \<Rightarrow> byte list option \<Rightarrow> byte list" where
  "addr_bytes n src = (case src of None \<Rightarrow> replicate n 0 | Some bs \<Rightarrow> take n bs)"

definition addr_ok :: "nat \<Rightarrow> byte list option \<Rightarrow> bool" where
  "addr_ok n src \<longleftrightarrow> (case src of None \<Rightarrow> True | Some bs \<Rightarrow> n \<le> length bs)"

lemma addr_ok_simps [simp]: "addr_ok n None" "addr_ok n (Some bs) \<longleftrightarrow> n \<le> length bs"
  by (simp_all add: addr_ok_def)

lemma addr_bytes_simps [simp]: "addr_bytes n None = replicate n 0" "addr_bytes n (Some bs) = take n bs"
  by (simp_all add: addr_bytes_def)

lemma length_addr_bytes [simp]: "addr_ok n src \<Longrightarrow> length (addr_bytes n src) = n"
  by (auto simp: addr_ok_def addr_bytes_def split: option.splits)

lemma put_addr_append:
  "off = length pre \<Longrightarrow> n = length old \<Longrightarrow> addr_ok n src \<Longrightarrow>
   put_addr (pre @ old @ post) off src n = Inr (pre @ addr_bytes n src @ post)"
  by (auto simp: put_addr_def addr_ok_def addr_bytes_def split: option.splits)

lemma split_at:
  assumes "n \<le> length xs" obtains as bs where "xs = as @ bs" "length as = n"
  using assms that [of "take n xs" "drop n xs"] by simp

lemma take_drop_step: "take n (drop m xs) @ drop (m + n) xs = drop m xs"
  by (metis add.commute append_take_drop_id drop_drop)

lemma split_arp_buffer:
  assumes "10 + 2 * hl + 2 * pl \<le> length buf"
  obtains h b1 b2 b3 b4 r where "buf = h @ b1 @ b2 @ b3 @ b4 @ r" "length h = 10" "length b1 = hl" "length b2 = pl"
    "length b3 = hl" "length b4 = pl"
proof
  show "buf = take 10 buf @ take hl (drop 10 buf) @ take pl (drop (10 + hl) buf) @
      take hl (drop (10 + hl + pl) buf) @ take pl (drop (10 + hl + pl + hl) buf) @ drop (10 + hl + pl + hl + pl) buf"
    by (simp only: take_drop_step append_take_drop_id)
qed (use assms in auto)

lemma build_arp_ok:
  assumes n: "n = 10 + 2 * unat hl + 2 * unat pl" and "n \<le> length buf" and "int n \<le> sz"
    and ok: "addr_ok (unat hl) sh" "addr_ok (unat pl) sp" "addr_ok (unat hl) th" "addr_ok (unat pl) tp"
  shows "build_arp (Some buf) sz ht pt hl pl opc sh sp th tp =
    Inr (int n, enc_arp_fields (htons ARP_ID) (htons ht) (htons pt) hl pl (htons opc) @
      addr_bytes (unat hl) sh @ addr_bytes (unat pl) sp @ addr_bytes (unat hl) th @ addr_bytes (unat pl) tp @ drop n buf)"
proof -
  obtain h b1 b2 b3 b4 r where buf: "buf = h @ b1 @ b2 @ b3 @ b4 @ r" and lens: "length h = 10"
      "length b1 = unat hl" "length b2 = unat pl" "length b3 = unat hl" "length b4 = unat pl"
    using assms(1,2) split_arp_buffer [of "unat hl" "unat pl" buf] by metis
  let ?f = "enc_arp_fields (htons ARP_ID) (htons ht) (htons pt) hl pl (htons opc)"
  let ?a1 = "addr_bytes (unat hl) sh" and ?a2 = "addr_bytes (unat pl) sp" and ?a3 = "addr_bytes (unat hl) th"
  let ?a4 = "addr_bytes (unat pl) tp"
  have f0: "put_bytes buf 0 ?f = Inr (?f @ b1 @ b2 @ b3 @ b4 @ r)"
    using put_bytes_append [of 0 "[]" ?f h "b1 @ b2 @ b3 @ b4 @ r"] buf lens by simp
  have f1: "put_addr (?f @ b1 @ b2 @ b3 @ b4 @ r) 10 sh (unat hl) = Inr (?f @ ?a1 @ b2 @ b3 @ b4 @ r)"
    using lens ok by (intro put_addr_append) simp_all
  have f2: "put_addr ((?f @ ?a1) @ b2 @ b3 @ b4 @ r) (10 + unat hl) sp (unat pl) = Inr ((?f @ ?a1) @ ?a2 @ b3 @ b4 @ r)"
    using lens ok by (intro put_addr_append) simp_all
  have f3: "put_addr ((?f @ ?a1 @ ?a2) @ b3 @ b4 @ r) (10 + unat hl + unat pl) th (unat hl) =
      Inr ((?f @ ?a1 @ ?a2) @ ?a3 @ b4 @ r)"
    using lens ok by (intro put_addr_append) simp_all
  have f4: "put_addr ((?f @ ?a1 @ ?a2 @ ?a3) @ b4 @ r) (10 + unat hl + unat pl + unat hl) tp (unat pl) =
      Inr ((?f @ ?a1 @ ?a2 @ ?a3) @ ?a4 @ r)"
    using lens ok by (intro put_addr_append) simp_all
  have rest: "drop n buf = r" using buf lens n by simp
  have "\<not> sz < int (10 + 2 * unat hl + 2 * unat pl)" using assms(1,3) by simp
  then show ?thesis
    by (simp only: build_arp_def Let_def option.case if_False f0 f1 sbnd_simps rest n [symmetric]
        f2 [unfolded append_assoc] f3 [unfolded append_assoc] f4 [unfolded append_assoc])
qed

lemma print_addresses_ok:
  assumes "wf_arp_hdr a" and "ARP_DATALEN a \<le> 48"
  shows "\<exists>str. print_addresses a = Inr str"
proof -
  have "\<exists>str. print_ha (drop k (arp_data a)) n = Inr str" if "k + max 1 n \<le> 48" for k n
    using that assms(1) by (auto simp: print_ha_def get_bytes_def wf_arp_hdr_def)
  moreover have "\<exists>str. print_pa (drop k (arp_data a)) n = Inr str" if "k + n \<le> 48" for k n
    using that assms(1) by (auto simp: print_pa_def get_bytes_def wf_arp_hdr_def)
  moreover have "max 1 (unat (hard_len a)) \<le> 48" "unat (hard_len a) + unat (prot_len a) \<le> 48"
      "unat (hard_len a) + unat (prot_len a) + max 1 (unat (hard_len a)) \<le> 48"
      "2 * unat (hard_len a) + unat (prot_len a) + unat (prot_len a) \<le> 48"
    using assms(2) by (auto simp: ARP_DATALEN_def max_def)
  ultimately show ?thesis
    unfolding print_addresses_def ARP_SHA_def ARP_SPA_def ARP_THA_def ARP_TPA_def
    by (metis add_0 drop0 sbnd_simps(2))
qed

lemma PRINT_ARP_runs:
  assumes "wf_arp_hdr a" and "ARP_DATALEN a \<le> 48"
  shows "\<exists>x y. PRINT_ARP a s = Some (Inr ((), log_call (Out x) (log_call (Out y) s)))"
proof -
  obtain str where "print_addresses a = Inr str" using print_addresses_ok [OF assms] by blast
  then have "PRINT_ARP a s = Some (Inr ((), log_call (Out str) (log_call (Out (arp_summary a)) s)))"
    by (simp add: PRINT_ARP_def do_call_def bnd_def)
  then show ?thesis by blast
qed

lemma wf_dec_arp_hdr: "58 \<le> length bs \<Longrightarrow> wf_arp_hdr (dec_arp_hdr bs)"
  by (simp add: wf_arp_hdr_def dec_arp_hdr_def)

lemma ntoh_arp_simps [simp]:
  "arp_id (ntoh_arp a) = ntohs (arp_id a)" "hard_type (ntoh_arp a) = ntohs (hard_type a)"
  "prot_type (ntoh_arp a) = ntohs (prot_type a)" "arp_op (ntoh_arp a) = ntohs (arp_op a)"
  "hard_len (ntoh_arp a) = hard_len a" "prot_len (ntoh_arp a) = prot_len a" "arp_data (ntoh_arp a) = arp_data a"
  by (simp_all add: ntoh_arp_def)

lemma enc_zero_arp_hdr: "enc_arp_hdr zero_arp_hdr = replicate 58 0"
  by (simp add: enc_arp_hdr_def zero_arp_hdr_def enc_arp_fields_def le16_def numeral_eq_Suc)

text \<open>What \<open>recv_frame\<close> leaves in a zeroed header when a frame arrives.\<close>

definition arp_of_frame :: "byte list \<Rightarrow> arp_hdr" where
  "arp_of_frame frame = ntoh_arp (dec_arp_hdr (drop ETH_HLEN frame @ replicate (72 - length frame) 0))"

lemma wf_arp_of_frame: "14 \<le> length frame \<Longrightarrow> wf_arp_hdr (arp_of_frame frame)"
  using wf_dec_arp_hdr [of "drop ETH_HLEN frame @ replicate (72 - length frame) 0"]
  by (simp add: arp_of_frame_def wf_arp_hdr_def)

lemma recv_frame_ok:
  assumes "os_recv os (Recvfrom fd ETH_FRAME_LEN # hist s) = Some frame" and "24 < length frame" and "length frame \<le> 72"
    and "ARP_DATALEN (arp_of_frame frame) \<le> 48"
  shows "\<exists>x y. recv_frame os fd eh zero_arp_hdr s = Some (Inr ((int (length frame), dec_ethhdr frame, arp_of_frame frame,
      os_from_ll os (Recvfrom fd ETH_FRAME_LEN # hist s)),
      log_call (Out x) (log_call (Out y) (log_call (Recvfrom fd ETH_FRAME_LEN) s))))"
proof -
  have "memcpy (enc_arp_hdr zero_arp_hdr) 0 (drop 14 frame) (length frame - 14) =
      Inr (drop 14 frame @ replicate (72 - length frame) 0)"
    using assms(2,3) by (simp add: enc_zero_arp_hdr memcpy_prefix)
  moreover have "wf_arp_hdr (arp_of_frame frame)" by (rule wf_arp_of_frame) (use assms(2) in simp)
  moreover have "take 1514 frame = frame" using assms(3) by simp
  moreover obtain x y where "PRINT_ARP (arp_of_frame frame) (log_call (Recvfrom fd ETH_FRAME_LEN) s) =
      Some (Inr ((), log_call (Out x) (log_call (Out y) (log_call (Recvfrom fd ETH_FRAME_LEN) s))))"
    using PRINT_ARP_runs calculation(2) assms(4) by blast
  ultimately show ?thesis using assms(1,2)
    by (intro exI [of _ x] exI [of _ y])
       (simp add: recv_frame_def sys_recvfrom_ll_def bnd_def Let_def arp_of_frame_def)
qed

lemma recv_frame_short:
  assumes "os_recv os (Recvfrom fd ETH_FRAME_LEN # hist s) = Some frame" and "length frame \<le> 24"
  shows "recv_frame os fd eh arp s = Some (Inr ((int (length frame), eh, arp,
      os_from_ll os (Recvfrom fd ETH_FRAME_LEN # hist s)), log_call (Recvfrom fd ETH_FRAME_LEN) s))"
  using assms by (simp add: recv_frame_def sys_recvfrom_ll_def bnd_def Let_def)

lemma recv_frame_error:
  assumes "os_recv os (Recvfrom fd ETH_FRAME_LEN # hist s) = None"
  shows "recv_frame os fd eh arp s = Some (Inr ((-1, eh, arp,
      os_from_ll os (Recvfrom fd ETH_FRAME_LEN # hist s)), log_call (Recvfrom fd ETH_FRAME_LEN) s))"
  using assms by (simp add: recv_frame_def sys_recvfrom_ll_def bnd_def Let_def)

section \<open>Senders of frames\<close>

text \<open>The frame that a sender hands to the kernel, and the link-level destination it names.\<close>

definition the_frame :: "u16 \<Rightarrow> byte list \<Rightarrow> byte list \<Rightarrow> byte list \<Rightarrow> byte list" where
  "the_frame proto dst src body =
     enc_ethhdr \<lparr>h_dest = take 6 dst, h_source = take 6 src, h_proto = htons proto\<rparr> @ body"

definition the_dest :: "u16 \<Rightarrow> byte list \<Rightarrow> u32 \<Rightarrow> sockaddr_ll" where
  "the_dest proto dst ifi = \<lparr>ll_family = AF_PACKET, ll_protocol = htons proto, ll_ifindex = ifi, ll_hatype = 0,
     ll_halen = of_nat ETH_ALEN, ll_addr = take 6 dst @ [0, 0]\<rparr>"

locale frame_sender =
  fixes send :: "os \<Rightarrow> int \<Rightarrow> byte list \<Rightarrow> int \<Rightarrow> byte list option \<Rightarrow> byte list option \<Rightarrow> u32 \<Rightarrow> ('a world_scheme, int) prog"
    and proto :: u16
  assumes send_ok: "n \<le> 1500 \<Longrightarrow> n \<le> length payload \<Longrightarrow> 6 \<le> length dst \<Longrightarrow> 6 \<le> length src \<Longrightarrow>
      c = Sendto_ll sock (the_frame proto dst src (take n payload)) (the_dest proto dst ifi) \<Longrightarrow>
      send os sock payload (int n) (Some dst) (Some src) ifi s =
        Some (Inr (if os_int os (c # hist s) < 0 then 0 else 1, log_call c s))"
    and send_too_large: "1500 < k \<Longrightarrow> send os sock payload k d m ifi s = Some (Inr (0, s))"
    and send_null: "k \<le> 1500 \<Longrightarrow> d = None \<or> m = None \<Longrightarrow>
      (\<And>bs. d = Some bs \<Longrightarrow> 6 \<le> length bs) \<Longrightarrow> send os sock payload k d m ifi s = Some (Inl NullDeref)"
begin

lemma sent_bounds:
  assumes "n \<le> 1500" "n \<le> length payload" "6 \<le> length dst" "6 \<le> length src"
  shows "length (the_frame proto dst src (take n payload)) = 14 + n"
  using assms by (simp add: the_frame_def ethhdr_wire.enc_length wf_ethhdr_def)

lemma sent_header:
  assumes "6 \<le> length dst" "6 \<le> length src"
  shows "dec_ethhdr (the_frame proto dst src body) = \<lparr>h_dest = take 6 dst, h_source = take 6 src, h_proto = htons proto\<rparr>"
    and "drop 14 (the_frame proto dst src body) = body"
proof -
  let ?e = "\<lparr>h_dest = take 6 dst, h_source = take 6 src, h_proto = htons proto\<rparr>"
  have wf: "wf_ethhdr ?e" using assms by (simp add: wf_ethhdr_def)
  from ethhdr_wire.dec_enc_append [OF wf] show "dec_ethhdr (the_frame proto dst src body) = ?e"
    by (simp add: the_frame_def)
  from ethhdr_wire.enc_length [OF wf] show "drop 14 (the_frame proto dst src body) = body"
    by (simp add: the_frame_def)
qed

end

lemma send_frame_as_ok:
  assumes "n \<le> 1500" "n \<le> length payload" "6 \<le> length dst" "6 \<le> length src"
    and "c = Sendto_ll sock (the_frame proto dst src (take n payload)) (the_dest proto dst ifi)"
  shows "send_frame_as proto os sock payload (int n) (Some dst) (Some src) ifi s =
    Some (Inr (if os_int os (c # hist s) < 0 then 0 else 1, log_call c s))"
  using assms
  by (simp add: send_frame_as_def copy_mac_def get_bytes_def sys_def bnd_def Let_def the_frame_def the_dest_def)

lemma send_frame_as_null:
  assumes "k \<le> 1500" "d = None \<or> m = None" "\<And>bs. d = Some bs \<Longrightarrow> 6 \<le> length bs"
  shows "send_frame_as proto os sock payload k d m ifi s = Some (Inl NullDeref)"
  using assms by (auto simp: send_frame_as_def copy_mac_def get_bytes_def split: option.splits)

interpretation arp_frames: frame_sender send_frame ETH_P_ARP_SH
  unfolding send_frame_def
  by unfold_locales (simp add: send_frame_as_ok, simp add: send_frame_as_def, rule send_frame_as_null)

section \<open>What the packet functions promise\<close>

text \<open>C18: a packet built in a buffer of at least \<open>sizeof (struct arp_hdr)\<close> bytes, with lengths that
  \<open>valid_arp\<close> accepts, has the announced size, leaves the rest of the buffer alone and, cast to the structure and put in
  host order, shows the header fields and the four addresses it was built from.\<close>

theorem arp_build_roundtrip:
  assumes "unat hl \<le> 8" and "unat pl \<le> 16" and "58 \<le> length buf" and "58 \<le> sz"
    and "addr_ok (unat hl) sh" and "addr_ok (unat pl) sp" and "addr_ok (unat hl) th" and "addr_ok (unat pl) tp"
  shows "\<exists>buf'. build_arp (Some buf) sz ht pt hl pl opc sh sp th tp = Inr (10 + 2 * uint hl + 2 * uint pl, buf') \<and>
    drop (10 + 2 * unat hl + 2 * unat pl) buf' = drop (10 + 2 * unat hl + 2 * unat pl) buf \<and>
    (let a = ntoh_arp (dec_arp_hdr buf') in
       arp_id a = ARP_ID \<and> hard_type a = ht \<and> prot_type a = pt \<and> hard_len a = hl \<and> prot_len a = pl \<and> arp_op a = opc \<and>
       take (unat hl) (ARP_SHA a) = addr_bytes (unat hl) sh \<and> take (unat pl) (ARP_SPA a) = addr_bytes (unat pl) sp \<and>
       take (unat hl) (ARP_THA a) = addr_bytes (unat hl) th \<and> take (unat pl) (ARP_TPA a) = addr_bytes (unat pl) tp)"
proof -
  let ?n = "10 + 2 * unat hl + 2 * unat pl"
  have "?n \<le> 58" using assms(1,2) by simp
  then have n: "?n \<le> length buf" "int ?n \<le> sz" "?n \<le> 58" using assms(3,4) by linarith+
  let ?b = "addr_bytes (unat hl) sh @ addr_bytes (unat pl) sp @ addr_bytes (unat hl) th @ addr_bytes (unat pl) tp @ drop ?n buf"
  let ?buf = "enc_arp_fields (htons ARP_ID) (htons ht) (htons pt) hl pl (htons opc) @ ?b"
  have "build_arp (Some buf) sz ht pt hl pl opc sh sp th tp = Inr (10 + 2 * uint hl + 2 * uint pl, ?buf)"
    using build_arp_ok [OF refl n(1,2) assms(5-8), of ht pt opc] by simp
  moreover have "drop ?n ?buf = drop ?n buf" using assms(5-8) by simp
  moreover have "dec_arp_hdr ?buf = \<lparr>arp_id = htons ARP_ID, hard_type = htons ht, prot_type = htons pt, hard_len = hl,
      prot_len = pl, arp_op = htons opc, arp_data = take 48 ?b\<rparr>"
    by (simp add: dec_arp_hdr_def enc_arp_fields_def nth_append)
  ultimately show ?thesis using n(3) assms(5-8)
    by (intro exI [of _ ?buf] conjI) (simp_all add: Let_def ARP_SHA_def ARP_SPA_def ARP_THA_def ARP_TPA_def)
qed

theorem arp_build_roundtrip_witness:
  "\<exists>buf'. build_arp (Some (replicate 58 0)) 58 ARPHRD_ETHER PF_INET 6 4 ARPOP_REQUEST
      (Some [1, 2, 3, 4, 5, 6]) (Some [10, 0, 0, 1]) None (Some [10, 0, 0, 2]) = Inr (10 + 2 * 6 + 2 * 4, buf') \<and>
    take 4 (ARP_TPA (ntoh_arp (dec_arp_hdr buf'))) = [10, 0, 0, 2]"
  using arp_build_roundtrip [of 6 4 "replicate 58 0" 58 "Some [1, 2, 3, 4, 5, 6]" "Some [10, 0, 0, 1]" None
      "Some [10, 0, 0, 2]" ARPHRD_ETHER PF_INET ARPOP_REQUEST]
  by (auto simp: Let_def)

text \<open>\<open>build_arp\<close> answers 0 and writes nothing when it has no buffer or the buffer is smaller than
  the packet.\<close>

lemma arp_build_refuses:
  "build_arp None sz ht pt hl pl opc sh sp th tp = Inr (0, []) \<and>
   (sz < 10 + 2 * uint hl + 2 * uint pl \<longrightarrow> build_arp (Some buf) sz ht pt hl pl opc sh sp th tp = Inr (0, buf))"
  by (simp add: build_arp_def Let_def)

lemma arp_build_refuses_witness:
  "build_arp (Some [1, 2]) 2 ARPHRD_ETHER PF_INET 6 4 ARPOP_REPLY None None None None = Inr (0, [1, 2])"
  using arp_build_refuses [of 2 ARPHRD_ETHER PF_INET 6 4 ARPOP_REPLY None None None None "[1, 2]"] by simp

text \<open>C10: in a packet that \<open>valid_arp\<close> accepts, all four address fields lie inside the structure's
  data array: copying any of them out and printing the packet stay in bounds.\<close>

theorem arp_valid_in_bounds:
  assumes "valid_arp a" and "wf_arp_hdr a"
  shows "ARP_HDRLEN + ARP_DATALEN a \<le> 58 \<and>
    get_bytes (ARP_SHA a) 0 (unat (hard_len a)) \<noteq> Inl OutOfBounds \<and> get_bytes (ARP_SPA a) 0 (unat (prot_len a)) \<noteq> Inl OutOfBounds \<and>
    get_bytes (ARP_THA a) 0 (unat (hard_len a)) \<noteq> Inl OutOfBounds \<and> get_bytes (ARP_TPA a) 0 (unat (prot_len a)) \<noteq> Inl OutOfBounds \<and>
    (\<exists>str. print_addresses a = Inr str)"
proof -
  have le: "unat (hard_len a) \<le> 8" "unat (prot_len a) \<le> 16"
    using assms(1) by (auto simp: valid_arp_def Let_def word_le_nat_alt not_less split: if_splits)
  then have "ARP_DATALEN a \<le> 48" by (simp add: ARP_DATALEN_def)
  with le show ?thesis using assms(2) print_addresses_ok [OF assms(2)]
    by (auto simp: get_bytes_def ARP_SHA_def ARP_SPA_def ARP_THA_def ARP_TPA_def wf_arp_hdr_def)
qed

theorem arp_valid_in_bounds_witness:
  "\<exists>str. print_addresses \<lparr>arp_id = ARP_ID, hard_type = 1, prot_type = 2, hard_len = 6, prot_len = 4, arp_op = 1,
     arp_data = replicate 48 7\<rparr> = Inr str"
  using arp_valid_in_bounds [of "\<lparr>arp_id = ARP_ID, hard_type = 1, prot_type = 2, hard_len = 6, prot_len = 4, arp_op = 1,
     arp_data = replicate 48 7\<rparr>"]
  by (simp add: valid_arp_def wf_arp_hdr_def Let_def)

text \<open>C25: a payload of at most 1500 bytes is sent in one frame whose header names the two hardware
  addresses and the private ARP protocol and whose body is the payload, at most 1514 bytes in all; a larger payload is
  refused and nothing is sent.\<close>

theorem arp_send_frame_exact:
  assumes "n \<le> length payload" and "6 \<le> length dst" and "6 \<le> length src"
  shows "(if n \<le> 1500 then \<exists>frame. length frame = 14 + n \<and> length frame \<le> ETH_FRAME_LEN \<and> drop 14 frame = take n payload \<and>
      dec_ethhdr frame = \<lparr>h_dest = take 6 dst, h_source = take 6 src, h_proto = htons ETH_P_ARP_SH\<rparr> \<and>
      runs_to (send_frame os sock payload (int n) (Some dst) (Some src) ifi) s
        (\<lambda>r t. hist t = Sendto_ll sock frame (the_dest ETH_P_ARP_SH dst ifi) # hist s \<and> (r = 0 \<or> r = 1))
    else send_frame os sock payload (int n) (Some dst) (Some src) ifi s = ret 0 s)"
proof (cases "n \<le> 1500")
  case True
  show ?thesis
    using True assms arp_frames.sent_bounds [OF True assms] arp_frames.sent_header [OF assms(2,3), of "take n payload"]
      arp_frames.send_ok [OF True assms refl, of os sock ifi s]
    by (auto simp: runs_to_def intro!: exI [of _ "the_frame ETH_P_ARP_SH dst src (take n payload)"])
next
  case False
  then show ?thesis using arp_frames.send_too_large [of "int n"] by simp
qed

theorem arp_send_frame_exact_witness:
  "send_frame (demo_os) 4 (replicate 1501 0) (int 1501) (Some (replicate 6 1)) (Some (replicate 6 2)) 2 \<lparr>hist = []\<rparr> =
   ret 0 \<lparr>hist = []\<rparr>"
  using arp_send_frame_exact [of 1501 "replicate 1501 0" "replicate 6 1" "replicate 6 2" demo_os 4 2 "\<lparr>hist = []\<rparr>"]
  by simp

text \<open>C34: \<open>recv_frame\<close> copies everything behind the Ethernet header into a structure of 58 bytes
  without looking at the length, so every frame of more than 72 bytes overflows it.\<close>

theorem arp_recv_frame_overflow:
  assumes "os_recv os (Recvfrom fd ETH_FRAME_LEN # hist s) = Some frame" and "72 < length frame" and "wf_arp_hdr arp"
  shows "recv_frame os fd eh arp s = Some (Inl OutOfBounds)"
proof -
  have "72 < length (take 1514 frame)" using assms(2) by simp
  then have "memcpy (enc_arp_hdr arp) 0 (drop 14 (take 1514 frame)) (length (take 1514 frame) - 14) = Inl OutOfBounds"
    using arp_wire.enc_length [OF assms(3)] by (intro memcpy_OutOfBounds) simp
  then show ?thesis using assms(1,2)
    by (simp add: recv_frame_def sys_recvfrom_ll_def bnd_def Let_def)
qed

theorem arp_recv_frame_overflow_witness:
  "recv_frame (demo_os\<lparr>os_recv := \<lambda>_. Some (replicate 100 0)\<rparr>) 4 zero_ethhdr zero_arp_hdr \<lparr>hist = []\<rparr> = Some (Inl OutOfBounds)"
  by (rule arp_recv_frame_overflow [of _ _ _ "replicate 100 0"]) simp_all

text \<open>C35: \<open>recv_frame\<close> prints the packet before anything validated it, so a hardware length above
  the size of the data array makes it read past the structure.\<close>

theorem arp_recv_frame_overread:
  assumes "os_recv os (Recvfrom fd ETH_FRAME_LEN # hist s) = Some frame" and "24 < length frame" and "length frame \<le> 72"
    and "48 < unat (hard_len (arp_of_frame frame))"
  shows "recv_frame os fd eh zero_arp_hdr s = Some (Inl OutOfBounds)"
proof -
  have "memcpy (enc_arp_hdr zero_arp_hdr) 0 (drop 14 frame) (length frame - 14) =
      Inr (drop 14 frame @ replicate (72 - length frame) 0)"
    using assms(2,3) by (simp add: enc_zero_arp_hdr memcpy_prefix)
  moreover have "print_addresses (arp_of_frame frame) = Inl OutOfBounds"
    using wf_arp_of_frame [of frame] assms(2,4)
    by (simp add: print_addresses_def print_ha_def get_bytes_def ARP_SHA_def wf_arp_hdr_def)
  ultimately show ?thesis using assms(1,2,3)
    by (simp add: recv_frame_def sys_recvfrom_ll_def bnd_def Let_def arp_of_frame_def PRINT_ARP_def do_call_def)
qed

theorem arp_recv_frame_overread_witness:
  "recv_frame (demo_os\<lparr>os_recv := \<lambda>_. Some (replicate 40 200)\<rparr>) 4 zero_ethhdr zero_arp_hdr \<lparr>hist = []\<rparr> = Some (Inl OutOfBounds)"
  by (rule arp_recv_frame_overread [of _ _ _ "replicate 40 200"])
     (simp_all add: arp_of_frame_def dec_arp_hdr_def nth_append)

end
