(* ===== verification/Hw_Addrs.thy ===== *)
theory Hw_Addrs
  imports Sys
begin

text \<open>
  \<open>get_hw_addrs.c\<close>: the list of network interfaces. The structures are linked once, in
  the order of the kernel's table, and never changed afterwards, so the list is an
  Isabelle list; the two allocations of an entry, the structure itself and the copy of the
  address, are its fields \<open>hwa_ptr\<close> and \<open>ip_addr_ptr\<close>. The first loop grows a buffer until two successive \<open>SIOCGIFCONF\<close> answers
  have the same length; it is a partial function, and its termination on a stable
  interface table is a theorem.
\<close>

record hwa_info =
  if_name :: string
  if_haddr :: "byte list"
  if_index :: u32
  ip_alias :: int
  ip_addr :: sockaddr
  hwa_ptr :: int
  ip_addr_ptr :: int

abbreviation (input) IP_ALIAS :: int where "IP_ALIAS \<equiv> 1"
abbreviation (input) IFNAMSIZ :: nat where "IFNAMSIZ \<equiv> 16"
abbreviation (input) EINVAL :: int where "EINVAL \<equiv> 22"

text \<open>\<open>sizeof (struct ifreq)\<close>.\<close>

abbreviation (input) SIZEOF_IFREQ :: int where "SIZEOF_IFREQ \<equiv> 40"

text \<open>\<open>SIOCGIFCONF\<close> with a buffer of \<open>len\<close> bytes stores as many whole entries as fit.\<close>

definition ifconf_fit :: "int \<Rightarrow> ifreq list \<Rightarrow> ifreq list" where
  "ifconf_fit len ifs = take (nat (len div SIZEOF_IFREQ)) ifs"

definition ifconf_answer :: "os \<Rightarrow> int \<Rightarrow> int \<Rightarrow> 'a world_scheme \<Rightarrow> ifreq list" where
  "ifconf_answer os sockfd len s = ifconf_fit len (os_ifconf os (hist s))"

text \<open>
  The loop over buffer sizes; \<open>None\<close> stands for the jumps to \<open>CLOSE_SOCK\<close> and \<open>FREE_BUF\<close>, and the result of a successful
  loop is the buffer and its entries. The lengths are variables of type \<open>int\<close>; the sum with a \<open>sizeof\<close> is unsigned and
  is converted back when it is stored.
\<close>

partial_function (option) ifconf_loop ::
  "os \<Rightarrow> int \<Rightarrow> int \<Rightarrow> int \<Rightarrow> 'a world_scheme \<Rightarrow> (stop + (int \<times> ifreq list) option \<times> 'a world_scheme) option" where
  "ifconf_loop os sockfd lastlen len s =
     bnd (sys os (Malloc len)) (\<lambda>buf s.
       if buf < 0 then ret None s
       else bnd (sys os (Ioctl_ifconf sockfd len)) (\<lambda>r s.
         if r < 0 then
           if os_errno os (hist s) \<noteq> EINVAL \<or> lastlen \<noteq> 0
           then bnd (do_call (Free_ptr buf)) (\<lambda>_. ret None) s
           else bnd (do_call (Free_ptr buf)) (\<lambda>_ s.
             ifconf_loop os sockfd lastlen (int32 (len + 10 * SIZEOF_IFREQ)) s) s
         else
           let items = ifconf_answer os sockfd len s; ifc_len = int32 (SIZEOF_IFREQ * int (length items))
           in if ifc_len = lastlen then ret (Some (buf, items)) s
              else bnd (do_call (Free_ptr buf)) (\<lambda>_ s.
                ifconf_loop os sockfd ifc_len (int32 (len + 10 * SIZEOF_IFREQ)) s) s) s) s"

text \<open>What the interface loop does next: it falls out of the loop with the list, or it jumps.\<close>

datatype hwa_exit = Hwa_done "hwa_info list" | Goto_FREE_HWA "hwa_info list" | Goto_FREE_BUF

definition if_haddr_of :: "ifreq \<Rightarrow> int \<Rightarrow> sockaddr \<Rightarrow> byte list" where
  "if_haddr_of item r sa = take IFHWADDRLEN (sa_data (if r < 0 then ifr_addr item else sa))"

text \<open>
  \<open>ifr_ifindex\<close> shares its memory with \<open>ifr_hwaddr\<close> and \<open>ifr_addr\<close>: when \<open>SIOCGIFINDEX\<close> fails, the index is
  read from the first bytes of what the union held, the family and two bytes of the data.
\<close>

definition if_index_of :: "ifreq \<Rightarrow> int \<Rightarrow> sockaddr \<Rightarrow> int \<Rightarrow> u32 \<Rightarrow> u32" where
  "if_index_of item r1 sa r2 idx =
     (if r2 < 0 then un32 (enc_sockaddr (if r1 < 0 then ifr_addr item else sa)) else idx)"

fun hwa_loop ::
  "os \<Rightarrow> int \<Rightarrow> string \<Rightarrow> hwa_info list \<Rightarrow> ifreq list \<Rightarrow> ('a world_scheme, hwa_exit) prog" where
  "hwa_loop os sockfd lastname acc [] = ret (Hwa_done acc)"
| "hwa_loop os sockfd lastname acc (item # items) =
     (if ifr_name item \<noteq> ''eth0'' then hwa_loop os sockfd lastname acc items
      else bnd (sys os (Calloc 1 48)) (\<lambda>p.
        if p < 0 then ret (Goto_FREE_HWA acc)
        else
          let name = takeWhile (\<lambda>c. c \<noteq> CHR '':'') (ifr_name item);
              alias = (if lastname = name then IP_ALIAS else 0)
          in bnd (sys os (Calloc 1 16)) (\<lambda>q.
             if q < 0 then ret Goto_FREE_BUF
             else bnd (sys os (Ioctl_hwaddr sockfd name)) (\<lambda>r1 s.
               let sa = os_hwaddr os (hist s)
               in bnd (sys os (Ioctl_index sockfd name)) (\<lambda>r2 s.
                 hwa_loop os sockfd name
                   (acc @ [\<lparr>if_name = take (IFNAMSIZ - 1) (ifr_name item), if_haddr = if_haddr_of item r1 sa,
                      if_index = if_index_of item r1 sa r2 (os_ifindex os (hist s)),
                      ip_alias = alias, ip_addr = ifr_addr item, hwa_ptr = p, ip_addr_ptr = q\<rparr>]) items s) s))))"

fun free_hwa_info :: "hwa_info list \<Rightarrow> ('a world_scheme, unit) prog" where
  "free_hwa_info [] = ret ()"
| "free_hwa_info (hwa # hwanext) =
     bnd (do_call (Free_ptr (ip_addr_ptr hwa))) (\<lambda>_. bnd (do_call (Free_ptr (hwa_ptr hwa))) (\<lambda>_. free_hwa_info hwanext))"

definition get_hw_addrs :: "os \<Rightarrow> ('a world_scheme, hwa_info list) prog" where
  "get_hw_addrs os =
     bnd (sys os (Socket (uint AF_INET) SOCK_DGRAM 0)) (\<lambda>sockfd.
     if sockfd < 0 then ret []
     else bnd (ifconf_loop os sockfd 0 (100 * SIZEOF_IFREQ)) (\<lambda>r. case r of
       None \<Rightarrow> bnd (do_call (Close sockfd)) (\<lambda>_. ret [])
     | Some (buf, items) \<Rightarrow> bnd (hwa_loop os sockfd '''' [] items) (\<lambda>x. case x of
         Hwa_done hwahead \<Rightarrow> bnd (do_call (Free_ptr buf)) (\<lambda>_. ret hwahead)
       | Goto_FREE_HWA hwahead \<Rightarrow>
           bnd (free_hwa_info hwahead) (\<lambda>_. bnd (do_call (Free_ptr buf)) (\<lambda>_.
           bnd (do_call (Close sockfd)) (\<lambda>_. ret [])))
       | Goto_FREE_BUF \<Rightarrow>
           bnd (do_call (Free_ptr buf)) (\<lambda>_. bnd (do_call (Close sockfd)) (\<lambda>_. ret [])))))"

fun hwa_searchbyindex :: "hwa_info list \<Rightarrow> u32 \<Rightarrow> hwa_info option" where
  "hwa_searchbyindex [] index = None"
| "hwa_searchbyindex (tmp # hwa_next) index =
     (if if_index tmp = index then Some tmp else hwa_searchbyindex hwa_next index)"

section \<open>The buffer loop\<close>

text \<open>
  A kernel whose interface table is \<open>L\<close> throughout and whose memory does not run out.
\<close>

definition stable_ifconf :: "os \<Rightarrow> ifreq list \<Rightarrow> bool" where
  "stable_ifconf os L \<longleftrightarrow> (\<forall>h. os_ifconf os h = L) \<and> (\<forall>n h. 0 \<le> os_int os (Malloc n # h)) \<and>
     (\<forall>fd n h. 0 \<le> os_int os (Ioctl_ifconf fd n # h))"

lemma stable_ifconf_simps:
  assumes "stable_ifconf os L"
  shows "\<not> os_int os (Malloc n # h) < 0" "\<not> os_int os (Ioctl_ifconf fd n # h) < 0"
    "ifconf_answer os fd n s = ifconf_fit n L"
  using assms by (simp_all add: stable_ifconf_def ifconf_answer_def not_less)

lemma ifconf_loop_stop:
  assumes "stable_ifconf os L" and "int32 (40 * int (length (ifconf_fit len L))) = lastlen"
  shows "\<exists>buf t. ifconf_loop os fd lastlen len s = Some (Inr (Some (buf, ifconf_fit len L), t)) \<and> closes t = closes s"
  by (subst ifconf_loop.simps) (simp add: sys_def bnd_def stable_ifconf_simps [OF assms(1)] assms(2))

lemma ifconf_loop_grow:
  assumes "stable_ifconf os L" and "int32 (40 * int (length (ifconf_fit len L))) \<noteq> lastlen"
  shows "\<exists>t. ifconf_loop os fd lastlen len s =
    ifconf_loop os fd (int32 (40 * int (length (ifconf_fit len L)))) (int32 (len + 400)) t \<and> closes t = closes s"
  by (subst ifconf_loop.simps)
     (auto simp: sys_def do_call_def bnd_def stable_ifconf_simps [OF assms(1)] assms(2))

lemma length_ifconf_fit: "0 \<le> k \<Longrightarrow> length (ifconf_fit (4000 + 400 * int k) L) = min (length L) (100 + 10 * k)"
proof -
  have "(4000 + 400 * int k) div 40 = 100 + 10 * int k" by simp
  then show ?thesis by (simp add: ifconf_fit_def nat_add_distrib nat_mult_distrib min.commute)
qed

text \<open>The table is small enough for the lengths of the buffers to be values of type \<open>int\<close>.\<close>

definition table_fits :: "ifreq list \<Rightarrow> bool" where
  "table_fits L \<longleftrightarrow> 40 * length L + 800 < 2 ^ 31"

lemma ifconf_loop_stable:
  assumes os: "stable_ifconf os L" and fits: "table_fits L"
  shows "\<exists>buf t. ifconf_loop os fd (if k = 0 then 0 else 40 * int (min (length L) (90 + 10 * k)))
      (4000 + 400 * int k) s = Some (Inr (Some (buf, L), t)) \<and> closes t = closes s"
proof (induction "length L - 10 * k" arbitrary: k s rule: less_induct)
  case less
  let ?last = "if k = 0 then 0 else 40 * int (min (length L) (90 + 10 * k))"
  let ?fit = "ifconf_fit (4000 + 400 * int k) L"
  have fit: "length ?fit = min (length L) (100 + 10 * k)" by (rule length_ifconf_fit) simp
  have small: "int32 (40 * int (length ?fit)) = 40 * int (length ?fit)"
    using fits fit by (intro int32_id) (simp_all add: table_fits_def min_def)
  show ?case
  proof (cases "40 * int (length ?fit) = ?last")
    case True
    then have "length L \<le> 100 + 10 * k" using fit by (auto split: if_splits simp: min_def)
    then have "?fit = L" using fit by (simp add: ifconf_fit_def)
    with ifconf_loop_stop [OF os, of "4000 + 400 * int k" ?last fd s] True small show ?thesis by (simp only:)
  next
    case False
    then have grow: "k = 0 \<or> 90 + 10 * k < length L" using fit by (auto simp: min_def split: if_splits)
    have len: "int32 (4000 + 400 * int k + 400) = 4000 + 400 * int (Suc k)"
      using fits grow by (subst int32_id) (auto simp: table_fits_def)
    obtain t where t: "ifconf_loop os fd ?last (4000 + 400 * int k) s =
        ifconf_loop os fd (40 * int (length ?fit)) (4000 + 400 * int (Suc k)) t" and cl: "closes t = closes s"
      using ifconf_loop_grow [OF os, of "4000 + 400 * int k" ?last fd s] False unfolding small len by blast
    have step: "40 * int (length ?fit) = (if Suc k = 0 then 0 else 40 * int (min (length L) (90 + 10 * Suc k)))"
      using fit by simp
    show ?thesis
    proof (cases "length L - 10 * Suc k < length L - 10 * k")
      case True
      from less [OF True, of t] show ?thesis unfolding t step cl .
    next
      case False
      then have k: "length L \<le> 10 * k" by simp
      then have *: "ifconf_fit (4000 + 400 * int (Suc k)) L = L"
        using length_ifconf_fit [of "Suc k" L] by (simp add: ifconf_fit_def)
      have "?fit = L" using k fit by (simp add: ifconf_fit_def)
      then show ?thesis unfolding t cl [symmetric]
        using ifconf_loop_stop [OF os, of "4000 + 400 * int (Suc k)" "40 * int (length L)" fd t, unfolded *] small by simp
    qed
  qed
qed

section \<open>The interface loop\<close>

definition memory_ok :: "os \<Rightarrow> bool" where
  "memory_ok os \<longleftrightarrow> (\<forall>a b h. 0 \<le> os_int os (Calloc a b # h))"

abbreviation eth0 :: "ifreq list \<Rightarrow> ifreq list" where
  "eth0 \<equiv> filter (\<lambda>i. ifr_name i = ''eth0'')"

text \<open>A kernel that knows the hardware address and the index of every interface by its name.\<close>

definition named_ifaces :: "os \<Rightarrow> (string \<Rightarrow> sockaddr) \<Rightarrow> (string \<Rightarrow> u32) \<Rightarrow> bool" where
  "named_ifaces os ha idx \<longleftrightarrow> (\<forall>fd name h. 0 \<le> os_int os (Ioctl_hwaddr fd name # h) \<and> 0 \<le> os_int os (Ioctl_index fd name # h) \<and>
     os_hwaddr os (Ioctl_hwaddr fd name # h) = ha name \<and> os_ifindex os (Ioctl_index fd name # h) = idx name)"

text \<open>The entry that an item of the table becomes, apart from the addresses of its memory.\<close>

definition hwa_entry :: "(string \<Rightarrow> sockaddr) \<Rightarrow> (string \<Rightarrow> u32) \<Rightarrow> bool \<Rightarrow> ifreq \<Rightarrow> hwa_info \<Rightarrow> bool" where
  "hwa_entry ha idx first item x \<longleftrightarrow> if_name x = ''eth0'' \<and> if_haddr x = take IFHWADDRLEN (sa_data (ha ''eth0'')) \<and>
     if_index x = idx ''eth0'' \<and> ip_alias x = (if first then 0 else IP_ALIAS) \<and> ip_addr x = ifr_addr item"

lemma hwa_loop_step:
  assumes "memory_ok os" and "named_ifaces os ha idx" and "ifr_name item = ''eth0''"
  shows "\<exists>x t. hwa_loop os fd lst acc (item # L) s = hwa_loop os fd ''eth0'' (acc @ [x]) L t \<and>
    hwa_entry ha idx (lst \<noteq> ''eth0'') item x \<and> closes t = closes s"
proof -
  let ?x = "\<lparr>if_name = ''eth0'', if_haddr = take IFHWADDRLEN (sa_data (ha ''eth0'')), if_index = idx ''eth0'',
    ip_alias = if lst = ''eth0'' then IP_ALIAS else 0, ip_addr = ifr_addr item,
    hwa_ptr = os_int os (Calloc 1 48 # hist s), ip_addr_ptr = os_int os (Calloc 1 16 # Calloc 1 48 # hist s)\<rparr>"
  let ?t = "log_call (Ioctl_index fd ''eth0'') (log_call (Ioctl_hwaddr fd ''eth0'') (log_call (Calloc 1 16) (log_call (Calloc 1 48) s)))"
  have ok: "\<not> os_int os (Calloc a b # h) < 0" "\<not> os_int os (Ioctl_hwaddr fd name # h) < 0" "\<not> os_int os (Ioctl_index fd name # h) < 0"
      "os_hwaddr os (Ioctl_hwaddr fd name # h) = ha name" "os_ifindex os (Ioctl_index fd name # h) = idx name" for a b name h
    using assms(1,2) by (simp_all add: memory_ok_def named_ifaces_def not_less)
  have "hwa_loop os fd lst acc (item # L) s = hwa_loop os fd ''eth0'' (acc @ [?x]) L ?t"
    using assms(3) ok by (simp add: sys_def bnd_def Let_def if_haddr_of_def if_index_of_def)
  then show ?thesis by (intro exI [of _ ?x] exI [of _ ?t]) (simp add: hwa_entry_def)
qed

lemma hwa_loop_done:
  assumes "memory_ok os" and "named_ifaces os ha idx"
  shows "\<exists>hs t. hwa_loop os fd lst acc L s = Some (Inr (Hwa_done (acc @ hs), t)) \<and> closes t = closes s \<and> length hs = length (eth0 L) \<and>
    (\<forall>i < length hs. hwa_entry ha idx (i = 0 \<and> lst \<noteq> ''eth0'') (eth0 L ! i) (hs ! i))"
proof (induction L arbitrary: lst acc s)
  case Nil
  then show ?case by simp
next
  case (Cons item L)
  show ?case
  proof (cases "ifr_name item = ''eth0''")
    case False
    then show ?thesis using Cons.IH [of lst acc s] by simp
  next
    case True
    obtain x t where x: "hwa_loop os fd lst acc (item # L) s = hwa_loop os fd ''eth0'' (acc @ [x]) L t"
        "hwa_entry ha idx (lst \<noteq> ''eth0'') item x" "closes t = closes s"
      using hwa_loop_step [OF assms True] by blast
    obtain hs u where u: "hwa_loop os fd ''eth0'' (acc @ [x]) L t = Some (Inr (Hwa_done ((acc @ [x]) @ hs), u))" "closes u = closes t"
        "length hs = length (eth0 L)" "\<forall>i < length hs. hwa_entry ha idx False (eth0 L ! i) (hs ! i)"
      using Cons.IH [of "''eth0''" "acc @ [x]" t] by auto
    have "hwa_entry ha idx (i = 0 \<and> lst \<noteq> ''eth0'') (eth0 (item # L) ! i) ((x # hs) ! i)" if "i < length (x # hs)" for i
      using that x(2) u(4) True by (cases i) simp_all
    then show ?thesis using True x u by (intro exI [of _ "x # hs"] exI [of _ u]) simp
  qed
qed

lemma hwa_searchbyindex_find: "hwa_searchbyindex hs i = find (\<lambda>x. if_index x = i) hs"
  by (induction hs) auto

section \<open>What the interface list promises\<close>

text \<open>C28: on a machine whose interface table does not change and is small enough for its length in bytes to be
  an \<open>int\<close>, whose memory does not run out and whose interfaces can be looked up by name, \<open>get_hw_addrs\<close> returns (the buffer
  loop ends) with one entry per \<open>eth0\<close> address, in table order, each with the address from the table, the hardware
  address and index of the interface, and all but the first marked as aliases; it has then closed no descriptor, so the
  socket it opened stays open.\<close>

theorem hw_addrs_complete:
  assumes "stable_ifconf os L" and "table_fits L" and "memory_ok os" and "named_ifaces os ha idx"
    and "0 \<le> os_int os (Socket (uint AF_INET) SOCK_DGRAM 0 # hist s)"
  shows "runs_to (get_hw_addrs os) s (\<lambda>hs t. length hs = length (eth0 L) \<and>
    (\<forall>i < length hs. hwa_entry ha idx (i = 0) (eth0 L ! i) (hs ! i)) \<and> closes t = closes s)"
proof -
  let ?c = "Socket (uint AF_INET) SOCK_DGRAM 0"
  let ?fd = "os_int os (?c # hist s)"
  obtain buf t1 where t1: "ifconf_loop os ?fd 0 4000 (log_call ?c s) = Some (Inr (Some (buf, L), t1))" "closes t1 = closes s"
    using ifconf_loop_stable [OF assms(1,2), of ?fd 0 "log_call ?c s"] by auto
  obtain hs t2 where t2: "hwa_loop os ?fd '''' [] L t1 = Some (Inr (Hwa_done hs, t2))" "closes t2 = closes t1"
      "length hs = length (eth0 L)" "\<forall>i < length hs. hwa_entry ha idx (i = 0) (eth0 L ! i) (hs ! i)"
    using hwa_loop_done [OF assms(3,4), of ?fd "''''" "[]" L t1] by auto
  have "get_hw_addrs os s = Some (Inr (hs, log_call (Free_ptr buf) t2))"
    using assms(5) t1 t2 by (simp add: get_hw_addrs_def sys_def do_call_def bnd_def)
  with t1 t2 show ?thesis by (simp add: runs_to_def)
qed

definition eth_table :: "ifreq list" where
  "eth_table = [\<lparr>ifr_name = ''lo'', ifr_addr = mk_sockaddr_in AF_INET 1\<rparr>, \<lparr>ifr_name = ''eth0'', ifr_addr = mk_sockaddr_in AF_INET 2\<rparr>]"

theorem hw_addrs_complete_witness:
  "runs_to (get_hw_addrs (demo_os\<lparr>os_ifconf := \<lambda>_. eth_table\<rparr>)) \<lparr>hist = []\<rparr> (\<lambda>hs t.
    map (\<lambda>x. (ip_addr x, if_haddr x, if_index x)) hs = [(mk_sockaddr_in AF_INET 2, replicate 6 7, 2)] \<and> closes t = [])"
proof -
  have "runs_to (get_hw_addrs (demo_os\<lparr>os_ifconf := \<lambda>_. eth_table\<rparr>)) \<lparr>hist = []\<rparr> (\<lambda>hs t. length hs = length (eth0 eth_table) \<and>
      (\<forall>i < length hs. hwa_entry (\<lambda>_. \<lparr>sa_family = 1, sa_data = replicate 14 7\<rparr>) (\<lambda>_. 2) (i = 0) (eth0 eth_table ! i) (hs ! i)) \<and>
      closes t = closes \<lparr>hist = []\<rparr>)"
    by (rule hw_addrs_complete)
      (simp_all add: demo_os_def stable_ifconf_def memory_ok_def named_ifaces_def table_fits_def eth_table_def)
  then show ?thesis by (rule runs_to_mono) (auto simp: eth_table_def length_Suc_conv hwa_entry_def closes_def)
qed

text \<open>Searching the list by interface index gives the first entry with that index, or nothing
  exactly when no entry has it.\<close>

lemma hw_addrs_search:
  "hwa_searchbyindex hs i = find (\<lambda>x. if_index x = i) hs \<and>
   (hwa_searchbyindex hs i = None) = (i \<notin> if_index ` set hs)"
  by (auto simp: hwa_searchbyindex_find find_None_iff)

end
