(* ===== verification/Arp_Daemon.thy ===== *)
theory Arp_Daemon
  imports Arp_Cache Arp_Packet Hw_Addrs
begin

text \<open>
  The ARP daemon (\<open>arp.c\<close>): the handlers for a client's request and for the two kinds of
  ARP packet, the select loop that drives them, and the start-up and shut-down code. The
  static variable \<open>cache\<close> and the heap it points into are the state; the static list
  \<open>devices\<close>, which is set once before the loop starts, is an argument.
\<close>

section \<open>Interfaces\<close>

fun isDestination :: "hwa_info list \<Rightarrow> u32 option \<Rightarrow> hwa_info option" where
  "isDestination devices None = None"
| "isDestination [] (Some ip) = None"
| "isDestination (d # ds) (Some ip) =
     (if ip = sin_addr (ip_addr d) then Some d else isDestination ds (Some ip))"

fun mac_by_ifindex :: "hwa_info list \<Rightarrow> u32 \<Rightarrow> byte list option" where
  "mac_by_ifindex [] index = None"
| "mac_by_ifindex (tmp # ds) index =
     (if if_index tmp = index then Some (if_haddr tmp) else mac_by_ifindex ds index)"

section \<open>A client's request\<close>

text \<open>The loop that sends an ARP request out of every interface.\<close>

fun areq_broadcast ::
  "os \<Rightarrow> int \<Rightarrow> u16 \<Rightarrow> byte \<Rightarrow> sockaddr \<Rightarrow> hwa_info list \<Rightarrow> ('a world_scheme, int) prog" where
  "areq_broadcast os pf_socket prtype prlen tgt [] = ret 1"
| "areq_broadcast os pf_socket prtype prlen tgt (device # ds) =
     bnd (pure (build_arp (Some (replicate ARP_MAXLEN 0)) (int ARP_MAXLEN) ARPHRD_ETHER prtype
       (of_nat IFHWADDRLEN) prlen ARPOP_REQUEST (Some (if_haddr device)) (Some (le32 (sin_addr (ip_addr device))))
       None (Some (le32 (sin_addr tgt))))) (\<lambda>(arpsize, arp_packet).
     bnd (send_frame os pf_socket arp_packet arpsize (Some (replicate 8 0xFF)) (Some (if_haddr device)) (if_index device)) (\<lambda>sent.
     if sent = 0 then ret 0 else areq_broadcast os pf_socket prtype prlen tgt ds))"

definition handle_areq :: "os \<Rightarrow> int \<Rightarrow> addr option \<Rightarrow> hwa_info list \<Rightarrow> (cstate, int) prog" where
  "handle_areq os pf_socket conn_entry devices =
     bnd (load conn_entry) (\<lambda>conn.
     if state conn \<noteq> STATE_CONNECTION then halt (Exit EXIT_FAILURE)
     else bnd (sys_recv os (domain_socket conn) 21) (\<lambda>got. case got of
       None \<Rightarrow> ret 0
     | Some recvbuf \<Rightarrow>
         if length recvbuf \<noteq> 20 then ret 0
         else let ar = dec_areq recvbuf
         in if sa_family (addr ar) \<noteq> AF_INET then ret 0
         else
           bnd get_cache (\<lambda>list.
           bnd (getCacheByIpAddr list (Some (addr ar))) (\<lambda>completed.
           bnd (if completed = None then ret None
                else bnd (load completed) (\<lambda>c. ret (if state c = STATE_COMPLETE then Some (hw c) else None))) (\<lambda>known.
           case known of
             Some answer \<Rightarrow>
               bnd (load conn_entry) (\<lambda>conn.
               bnd (sys os (Send (domain_socket conn) (enc_hwaddr answer))) (\<lambda>nsent. ret 0))
           | None \<Rightarrow>
               bnd (modify conn_entry (\<lambda>c. c\<lparr>state := STATE_INCOMPLETE\<rparr>)) (\<lambda>_.
               bnd (modify conn_entry (\<lambda>c. c\<lparr>ipaddress := addr ar\<rparr>)) (\<lambda>_.
               areq_broadcast os pf_socket PF_INET 4 (addr ar) devices)))))))"

section \<open>ARP packets\<close>

text \<open>
  The two ways a protocol address is copied out of a packet: into a local \<open>struct in_addr\<close> whose four
  bytes were never written before (\<open>None\<close> when some of them still are not), and behind the family and port of a zeroed \<open>struct sockaddr_in\<close>, where
  twelve bytes are left.
\<close>

definition copy_in_addr :: "byte list \<Rightarrow> nat \<Rightarrow> stop + u32 option" where
  "copy_in_addr src n =
     sbnd (memcpy (replicate 4 0) 0 src n) (\<lambda>bs. Inr (if n < 4 then None else Some (un32 bs)))"

text \<open>
  The call of \<open>isDestination\<close> with the variable: the first comparison with the address of an interface reads all of its
  bytes, also those that were never written.
\<close>

definition find_target :: "hwa_info list \<Rightarrow> u32 option \<Rightarrow> stop + hwa_info option" where
  "find_target devices tgtip = (case tgtip of
       Some ip \<Rightarrow> Inr (isDestination devices (Some ip))
     | None \<Rightarrow> if devices = [] then Inr None else Inl Uninit)"

definition copy_sin_addr :: "u16 \<Rightarrow> byte list \<Rightarrow> nat \<Rightarrow> stop + sockaddr" where
  "copy_sin_addr fam src n =
     sbnd (memcpy (enc_sockaddr (mk_sockaddr_in fam 0)) 4 src n) (\<lambda>bs. Inr (dec_sockaddr bs))"

text \<open>Reading \<open>n\<close> bytes of the six-byte array that \<open>mac_by_ifindex\<close> found, or of the null pointer it returned.\<close>

definition copy_from_mac :: "byte list \<Rightarrow> byte list option \<Rightarrow> nat \<Rightarrow> stop + byte list" where
  "copy_from_mac dst src n = (case src of None \<Rightarrow> Inl NullDeref | Some bs \<Rightarrow> memcpy dst 0 bs n)"

text \<open>The entry for the asking host that \<open>handle_req\<close> adds to the cache.\<close>

definition reverse_hw :: "hwa_info list \<Rightarrow> sockaddr_ll \<Rightarrow> stop + hwaddr" where
  "reverse_hw devices src =
     sbnd (copy_from_mac (replicate 8 0) (mac_by_ifindex devices (ll_ifindex src)) ETH_ALEN) (\<lambda>ifaddr.
     sbnd (memcpy (replicate 8 0) 0 (ll_addr src) (unat (ll_halen src))) (\<lambda>ha.
     Inr \<lparr>sll_ifindex = ll_ifindex src, sll_ifhatype = ARPHRD_ETHER, sll_ifhalen = of_nat ETH_ALEN, sll_ifaddr = ifaddr,
          sll_hatype = ll_hatype src, sll_halen = ll_halen src, sll_addr = ha\<rparr>))"

definition add_reverse_entry :: "os \<Rightarrow> sockaddr \<Rightarrow> sockaddr_ll \<Rightarrow> hwa_info list \<Rightarrow> (cstate, int) prog" where
  "add_reverse_entry os srcip src devices =
     bnd get_cache (\<lambda>list.
     bnd (getCacheByIpAddr list (Some srcip)) (\<lambda>entry.
     if entry = None then
       bnd (calloc_Cache os) (\<lambda>new_entry.
       if new_entry = None then halt (Exit EXIT_FAILURE)
       else
         bnd (pure (reverse_hw devices src)) (\<lambda>new_hw.
         bnd (modify new_entry (\<lambda>c. c\<lparr>hw := new_hw\<rparr>)) (\<lambda>_.
         bnd (modify new_entry (\<lambda>c. c\<lparr>ipaddress := srcip\<rparr>)) (\<lambda>_.
         bnd (modify new_entry (\<lambda>c. c\<lparr>state := STATE_COMPLETE\<rparr>)) (\<lambda>_.
         bnd (addToCache Addr_of_cache new_entry) (\<lambda>added.
         if \<not> added then ret 0 else ret 1))))))
     else ret 1))"

definition handle_req ::
  "os \<Rightarrow> int \<Rightarrow> ethhdr \<Rightarrow> arp_hdr \<Rightarrow> sockaddr_ll \<Rightarrow> hwa_info list \<Rightarrow> (cstate, int) prog" where
  "handle_req os pack_fd eh arp src devices =
     bnd (pure (copy_in_addr (ARP_TPA arp) (unat (prot_len arp)))) (\<lambda>tgtip.
     bnd (pure (find_target devices tgtip)) (\<lambda>dest. case dest of
       None \<Rightarrow> ret 1
     | Some this \<Rightarrow>
         bnd (pure (build_arp (Some (replicate 58 0)) 58 (hard_type arp) (prot_type arp) (hard_len arp) (prot_len arp)
           ARPOP_REPLY (Some (h_source eh)) (Some (le32 (sin_addr (ip_addr this)))) (Some (if_haddr this))
           (Some (ARP_TPA arp)))) (\<lambda>(hdr_size, hdr).
         bnd (PRINT_ARP (dec_arp_hdr hdr)) (\<lambda>_.
         bnd (send_frame os pack_fd hdr hdr_size (Some (h_source eh)) (mac_by_ifindex devices (ll_ifindex src))
           (ll_ifindex src)) (\<lambda>_.
         bnd (pure (copy_sin_addr (prot_type arp) (ARP_SPA arp) (unat (prot_len arp)))) (\<lambda>srcip.
         add_reverse_entry os srcip src devices))))))"

text \<open>The \<open>struct hwaddr\<close> that a reply is turned into.\<close>

definition reply_hw :: "hwa_info list \<Rightarrow> arp_hdr \<Rightarrow> sockaddr_ll \<Rightarrow> stop + hwaddr" where
  "reply_hw devices arp src =
     sbnd (memcpy (replicate 8 0) 0 (ARP_THA arp) (unat (hard_len arp))) (\<lambda>ha.
     sbnd (copy_from_mac (replicate 8 0) (mac_by_ifindex devices (ll_ifindex src)) (unat (hard_len arp))) (\<lambda>ifaddr.
     Inr \<lparr>sll_ifindex = ll_ifindex src, sll_ifhatype = 0, sll_ifhalen = of_nat ETH_ALEN, sll_ifaddr = ifaddr,
          sll_hatype = htons ARPHRD_ETHER, sll_halen = hard_len arp, sll_addr = ha\<rparr>))"

text \<open>The loop of \<open>handle_reply\<close> over the cache.\<close>

partial_function (option) reply_loop ::
  "os \<Rightarrow> sockaddr \<Rightarrow> hwaddr \<Rightarrow> addr option \<Rightarrow> cstate \<Rightarrow> (stop + unit \<times> cstate) option" where
  "reply_loop os repip new entry s = (case entry of
       None \<Rightarrow> ret () s
     | Some a \<Rightarrow> bnd (load entry) (\<lambda>c s.
         bnd (pure (memeq (enc_sockaddr repip) (enc_sockaddr (ipaddress c)) 16)) (\<lambda>eq s.
         bnd (if eq \<and> state c = STATE_INCOMPLETE then
                bnd (sys os (Send (domain_socket c) (enc_hwaddr new))) (\<lambda>nsent.
                bnd (modify entry (\<lambda>c. c\<lparr>hw := new\<rparr>)) (\<lambda>_.
                bnd (do_call (Close (domain_socket c))) (\<lambda>_.
                bnd (modify entry (\<lambda>c. c\<lparr>domain_socket := -1\<rparr>)) (\<lambda>_.
                modify entry (\<lambda>c. c\<lparr>state := STATE_COMPLETE\<rparr>)))))
              else ret ()) (\<lambda>_ s.
         bnd (load entry) (\<lambda>c s. reply_loop os repip new (nextp c) s) s) s) s) s)"

definition handle_reply ::
  "os \<Rightarrow> int \<Rightarrow> ethhdr \<Rightarrow> arp_hdr \<Rightarrow> sockaddr_ll \<Rightarrow> hwa_info list \<Rightarrow> (cstate, int) prog" where
  "handle_reply os pack_fd eh arp src devices =
     bnd (pure (reply_hw devices arp src)) (\<lambda>new.
     bnd (pure (copy_sin_addr (prot_type arp) (ARP_TPA arp) (unat (prot_len arp)))) (\<lambda>repip.
     bnd get_cache (\<lambda>list.
     bnd (reply_loop os repip new list) (\<lambda>_.
     ret 0))))"

section \<open>The select loop\<close>

partial_function (option) maxfd_loop ::
  "int \<Rightarrow> addr option \<Rightarrow> cstate \<Rightarrow> (stop + int \<times> cstate) option" where
  "maxfd_loop mx current s = (case current of
       None \<Rightarrow> ret mx s
     | Some a \<Rightarrow> bnd (load current) (\<lambda>c s.
         maxfd_loop (if state c \<noteq> STATE_COMPLETE then (if mx > domain_socket c then mx else domain_socket c) else mx)
           (nextp c) s) s)"

definition maxfd :: "int \<Rightarrow> int \<Rightarrow> addr option \<Rightarrow> (cstate, int) prog" where
  "maxfd pf_socket unix_domain list =
     (let mx = (if pf_socket > unix_domain then pf_socket else unix_domain)
      in if list \<noteq> None then maxfd_loop mx list else ret mx)"

partial_function (option) fdset_loop ::
  "int list \<Rightarrow> addr option \<Rightarrow> cstate \<Rightarrow> (stop + int list \<times> cstate) option" where
  "fdset_loop fds current s = (case current of
       None \<Rightarrow> ret fds s
     | Some a \<Rightarrow> bnd (load current) (\<lambda>c s.
         if state c \<noteq> STATE_COMPLETE
         then bnd (pure (fd_set_add (domain_socket c) fds)) (\<lambda>fds s. fdset_loop fds (nextp c) s) s
         else fdset_loop fds (nextp c) s) s)"

text \<open>The loop that looks for readable clients, handles their request and removes those that are done.\<close>

definition drop_client :: "addr option \<Rightarrow> (cstate, unit) prog" where
  "drop_client rm =
     bnd (load rm) (\<lambda>c.
     bnd (do_call (Close (domain_socket c))) (\<lambda>_.
     bnd (modify rm (\<lambda>c. c\<lparr>domain_socket := -1\<rparr>)) (\<lambda>_.
     bnd (removeFromCache Addr_of_cache rm) (\<lambda>_. ret ()))))"

partial_function (option) scan_clients ::
  "os \<Rightarrow> int \<Rightarrow> hwa_info list \<Rightarrow> (int \<Rightarrow> bool) \<Rightarrow> addr option \<Rightarrow> cstate \<Rightarrow> (stop + unit \<times> cstate) option" where
  "scan_clients os pf_socket devices rset current s = (case current of
       None \<Rightarrow> ret () s
     | Some a \<Rightarrow> bnd (load current) (\<lambda>c s.
         if state c = STATE_COMPLETE then scan_clients os pf_socket devices rset (nextp c) s
         else bnd (pure (fd_isset (domain_socket c) rset)) (\<lambda>readable s.
           if readable then
             bnd (if state c = STATE_CONNECTION then handle_areq os pf_socket current devices else ret 0) (\<lambda>rv s.
             bnd (load current) (\<lambda>c s.
             if rv = 0 then bnd (drop_client current) (\<lambda>_ s. scan_clients os pf_socket devices rset (nextp c) s) s
             else scan_clients os pf_socket devices rset (nextp c) s) s) s
           else scan_clients os pf_socket devices rset (nextp c) s) s) s)"

text \<open>A connection on the listening socket.\<close>

definition accept_client :: "os \<Rightarrow> int \<Rightarrow> (cstate, unit) prog" where
  "accept_client os unix_domain =
     bnd (sys os (Accept unix_domain)) (\<lambda>sfd.
     bnd get_cache (\<lambda>list.
     bnd (getCacheBySocket list sfd) (\<lambda>ce.
     bnd (if ce = None then calloc_Cache os else ret ce) (\<lambda>ce.
     bnd (modify ce (\<lambda>c. c\<lparr>domain_socket := sfd\<rparr>)) (\<lambda>_.
     bnd (modify ce (\<lambda>c. c\<lparr>state := STATE_CONNECTION\<rparr>)) (\<lambda>_.
     bnd (addToCache Addr_of_cache ce) (\<lambda>added.
     if \<not> added then free_Cache ce else ret ())))))))"

text \<open>A frame on the packet socket; the result says whether the loop goes on.\<close>

definition receive_packet :: "os \<Rightarrow> int \<Rightarrow> hwa_info list \<Rightarrow> (cstate, bool) prog" where
  "receive_packet os pf_socket devices =
     bnd (recv_frame os pf_socket zero_ethhdr zero_arp_hdr) (\<lambda>(nread, eh, arp, llsrc).
     if nread < 0 then ret False
     else if nread < int (ETH_HLEN + ARP_HDRLEN) \<or> nread < int (ETH_HLEN + ARP_HDRLEN + ARP_DATALEN arp) then ret True
     else if valid_arp arp then
       if arp_op arp = ARPOP_REQUEST then bnd (handle_req os pf_socket eh arp llsrc devices) (\<lambda>_. ret True)
       else if arp_op arp = ARPOP_REPLY then bnd (handle_reply os pf_socket eh arp llsrc devices) (\<lambda>_. ret True)
       else ret True
     else ret True)"

text \<open>One turn of the loop: \<open>None\<close> to go on, or the value with which \<open>run_arp\<close> returns.\<close>

definition arp_iter :: "os \<Rightarrow> int \<Rightarrow> int \<Rightarrow> hwa_info list \<Rightarrow> (cstate, int option) prog" where
  "arp_iter os unix_domain pf_socket devices =
     bnd get_cache (\<lambda>list.
     bnd (maxfd pf_socket unix_domain list) (\<lambda>max_fd.
     bnd (pure (sbnd (fd_set_add unix_domain []) (fd_set_add pf_socket))) (\<lambda>fds.
     bnd (fdset_loop fds list) (\<lambda>fds.
     bnd (sys_select os (filter (\<lambda>fd. fd < max_fd + 1) fds) None) (\<lambda>(r, rset).
     if r < 0 then ret (Some EXIT_FAILURE)
     else
       bnd (scan_clients os pf_socket devices rset list) (\<lambda>_.
       bnd (if rset unix_domain then accept_client os unix_domain else ret ()) (\<lambda>_.
       bnd (if rset pf_socket then receive_packet os pf_socket devices else ret True) (\<lambda>goes_on.
       ret (if goes_on then None else Some EXIT_FAILURE)))))))))"

partial_function (option) run_arp ::
  "os \<Rightarrow> int \<Rightarrow> int \<Rightarrow> hwa_info list \<Rightarrow> cstate \<Rightarrow> (stop + int \<times> cstate) option" where
  "run_arp os unix_domain pf_socket devices s =
     bnd (arp_iter os unix_domain pf_socket devices) (\<lambda>r s. case r of
       Some success \<Rightarrow> ret success s
     | None \<Rightarrow> run_arp os unix_domain pf_socket devices s) s"

section \<open>Start and end of the daemon\<close>

abbreviation (input) ARP_WELL_KNOWN_PATH :: string where
  "ARP_WELL_KNOWN_PATH \<equiv> ''/tmp/arp_cse533-14''"

definition create_unix_domain :: "os \<Rightarrow> ('a world_scheme, int) prog" where
  "create_unix_domain os =
     bnd (sys os (Socket AF_UNIX SOCK_STREAM 0)) (\<lambda>unix_domain.
     if unix_domain < 0 then ret unix_domain
     else
       bnd (do_call (Unlink ARP_WELL_KNOWN_PATH)) (\<lambda>_.
       bnd (sys os (Bind_un unix_domain ARP_WELL_KNOWN_PATH)) (\<lambda>b.
       if b \<noteq> 0 then ret (-1)
       else bnd (sys os (Chmod ARP_WELL_KNOWN_PATH 466)) (\<lambda>c.
         if c < 0 then
           bnd (do_call (Close unix_domain)) (\<lambda>_. bnd (do_call (Unlink ARP_WELL_KNOWN_PATH)) (\<lambda>_. ret (-1)))
         else bnd (sys os (Listen unix_domain 5)) (\<lambda>l.
           if l < 0 then
             bnd (do_call (Close unix_domain)) (\<lambda>_. bnd (do_call (Unlink ARP_WELL_KNOWN_PATH)) (\<lambda>_. ret (-1)))
           else ret unix_domain)))))"

definition create_pf_socket :: "os \<Rightarrow> ('a world_scheme, int) prog" where
  "create_pf_socket os = sys os (Socket (uint AF_PACKET) SOCK_RAW (uint (htons ETH_P_ARP_SH)))"

definition cleanup :: "int \<Rightarrow> ('a world_scheme, unit) prog" where
  "cleanup signum = bnd (do_call (Unlink ARP_WELL_KNOWN_PATH)) (\<lambda>_. halt (Exit (128 + signum)))"

definition set_sig_cleanup :: "os \<Rightarrow> ('a world_scheme, unit) prog" where
  "set_sig_cleanup os = bnd (sys os (Sigaction 2)) (\<lambda>r. if r < 0 then halt (Exit EXIT_FAILURE) else ret ())"

definition arp_main :: "os \<Rightarrow> (cstate, int) prog" where
  "arp_main os =
     bnd (get_hw_addrs os) (\<lambda>devices.
     if devices = [] then ret EXIT_FAILURE
     else bnd (create_unix_domain os) (\<lambda>unix_domain.
       if unix_domain < 0 then bnd (do_call (Unlink ARP_WELL_KNOWN_PATH)) (\<lambda>_. ret EXIT_FAILURE)
       else bnd (create_pf_socket os) (\<lambda>pf_socket.
         if pf_socket < 0 then
           bnd (do_call (Close unix_domain)) (\<lambda>_. bnd (do_call (Unlink ARP_WELL_KNOWN_PATH)) (\<lambda>_. ret EXIT_FAILURE))
         else
           bnd (set_sig_cleanup os) (\<lambda>_.
           bnd (run_arp os unix_domain pf_socket devices) (\<lambda>success.
           bnd (do_call (Close pf_socket)) (\<lambda>_.
           bnd (do_call (Close unix_domain)) (\<lambda>_.
           bnd (do_call (Unlink ARP_WELL_KNOWN_PATH)) (\<lambda>_.
           ret success))))))))"

end
