(* ===== verification/Arp_Safety.thy ===== *)
theory Arp_Safety
  imports Arp_Daemon
begin

text \<open>
  Memory safety and the table invariant of the ARP daemon when it serves one client at a
  time (the way the tour application uses it: \<open>areq\<close> waits for its answer before the next
  request is made). Every turn of the select loop then returns without a fault and keeps
  the invariant \<open>arp_inv\<close>; without that discipline it does not, which the last section shows.
\<close>

section \<open>The invariant\<close>

definition entry_ok :: "Cache \<Rightarrow> bool" where
  "entry_ok c \<longleftrightarrow> wf_Cache c \<and> state c \<in> {STATE_CONNECTION, STATE_INCOMPLETE, STATE_COMPLETE} \<and>
     (if state c = STATE_CONNECTION then ipaddress c = zero_sockaddr else sa_family (ipaddress c) = AF_INET) \<and>
     (if state c = STATE_COMPLETE then domain_socket c \<le> 0 else fd_ok (domain_socket c))"

definition table_ok :: "(addr \<Rightarrow> Cache) \<Rightarrow> addr list \<Rightarrow> bool" where
  "table_ok e as \<longleftrightarrow> (\<forall>a \<in> set as. entry_ok (e a)) \<and>
     (\<forall>a \<in> set as. \<forall>b \<in> set as. state (e a) \<noteq> STATE_CONNECTION \<longrightarrow> ipaddress (e a) = ipaddress (e b) \<longrightarrow> a = b) \<and>
     (\<forall>a \<in> set as. \<forall>b \<in> set as. state (e a) \<noteq> STATE_COMPLETE \<longrightarrow> state (e b) \<noteq> STATE_COMPLETE \<longrightarrow> a = b)"

definition busy :: "cstate \<Rightarrow> addr list \<Rightarrow> bool" where
  "busy s as \<longleftrightarrow> (\<exists>a \<in> set as. state (entry_of s a) \<noteq> STATE_COMPLETE)"

definition arp_inv :: "cstate \<Rightarrow> addr list \<Rightarrow> bool" where
  "arp_inv s as \<longleftrightarrow> cache_rep s as \<and> (\<forall>a. heap s a \<noteq> None \<longrightarrow> a \<in> set as) \<and> table_ok (entry_of s) as \<and>
     (busy s as \<longrightarrow> head_ok s)"

lemma arp_invD:
  assumes "arp_inv s as"
  shows "cache_rep s as" "\<And>a. heap s a \<noteq> None \<Longrightarrow> a \<in> set as" "table_ok (entry_of s) as" "busy s as \<Longrightarrow> head_ok s"
  using assms by (simp_all add: arp_inv_def)

lemma arp_inv_heap: "arp_inv s as \<Longrightarrow> a \<in> set as \<Longrightarrow> \<exists>c. heap s a = Some c"
  by (auto simp: arp_inv_def dest: cache_rep_entry)

lemma arp_inv_wf: "arp_inv s as \<Longrightarrow> wf_heap s"
  unfolding wf_heap_def arp_inv_def table_ok_def entry_ok_def
  by (metis entry_of_def option.distinct(1) option.sel wf_Cache_strip)

lemma entry_of_heap: "heap s a = Some c \<Longrightarrow> entry_of s a = strip c"
  by (simp add: entry_of_def)

lemma strip_simps [simp]:
  "ipaddress (strip c) = ipaddress c" "domain_socket (strip c) = domain_socket c" "state (strip c) = state c"
  "hw (strip c) = hw c" "strip (strip c) = strip c"
  "strip (c\<lparr>ipaddress := ip\<rparr>) = (strip c)\<lparr>ipaddress := ip\<rparr>" "strip (c\<lparr>domain_socket := n\<rparr>) = (strip c)\<lparr>domain_socket := n\<rparr>"
  "strip (c\<lparr>state := st\<rparr>) = (strip c)\<lparr>state := st\<rparr>" "strip (c\<lparr>hw := w\<rparr>) = (strip c)\<lparr>hw := w\<rparr>"
  by (simp_all add: strip_def)

lemma entry_of_log_call [simp]: "entry_of (log_call c s) = entry_of s"
  by (simp add: entry_of_def fun_eq_iff)

lemma cache_rep_log_call [simp]: "cache_rep (log_call c s) as = cache_rep s as"
  by (simp add: cache_rep_def)

lemma head_ok_log_call [simp]: "head_ok (log_call c s) = head_ok s"
  by (simp add: head_ok_def)

lemma busy_log_call [simp]: "busy (log_call c s) as = busy s as"
  by (simp add: busy_def)

lemma arp_inv_log_call [simp]: "arp_inv (log_call c s) as = arp_inv s as"
  by (simp add: arp_inv_def)

text \<open>A write that leaves the links alone changes one entry of the table and nothing of the list.\<close>

abbreviation upd :: "cstate \<Rightarrow> addr \<Rightarrow> (Cache \<Rightarrow> Cache) \<Rightarrow> cstate" where
  "upd s a f \<equiv> s\<lparr>heap := (heap s)(a \<mapsto> f (the (heap s a)))\<rparr>"

definition data_only :: "(Cache \<Rightarrow> Cache) \<Rightarrow> bool" where
  "data_only f \<longleftrightarrow> (\<forall>c. nextp (f c) = nextp c \<and> prevp (f c) = prevp c \<and> strip (f c) = strip (f (strip c)))"

lemma upd_facts:
  assumes "cache_rep s as" and "a \<in> set as" and "data_only f"
  shows "modify (Some a) f s = Some (Inr ((), upd s a f))" and "cache_rep (upd s a f) as"
    and "head_ok (upd s a f) = head_ok s" and "entry_of (upd s a f) = (entry_of s)(a := strip (f (entry_of s a)))"
    and "heap (upd s a f) x \<noteq> None \<longleftrightarrow> heap s x \<noteq> None"
proof -
  obtain c where c: "heap s a = Some c" using cache_rep_entry [OF assms(1,2)] by blast
  have f: "nextp (f c) = nextp c" "prevp (f c) = prevp c" "strip (f c) = strip (f (strip c))"
    using assms(3) by (auto simp: data_only_def)
  show "modify (Some a) f s = Some (Inr ((), upd s a f))" using c by simp
  show "cache_rep (upd s a f) as" using assms(1) c f
    by (auto simp: cache_rep_def intro: dls_upd_data)
  show "head_ok (upd s a f) = head_ok s" using c f by (auto simp: head_ok_def)
  show "entry_of (upd s a f) = (entry_of s)(a := strip (f (entry_of s a)))"
    using c f(3) by (auto simp: entry_of_def fun_eq_iff)
  show "heap (upd s a f) x \<noteq> None \<longleftrightarrow> heap s x \<noteq> None" using c by auto
qed

lemma data_only_simps [simp]:
  "data_only (\<lambda>c. c\<lparr>ipaddress := ip\<rparr>)" "data_only (\<lambda>c. c\<lparr>domain_socket := n\<rparr>)"
  "data_only (\<lambda>c. c\<lparr>state := st\<rparr>)" "data_only (\<lambda>c. c\<lparr>hw := w\<rparr>)"
  by (simp_all add: data_only_def)

lemma arp_inv_upd:
  assumes "arp_inv s as" and "a \<in> set as" and "data_only f"
    and "table_ok ((entry_of s)(a := strip (f (entry_of s a)))) as" and "busy (upd s a f) as \<Longrightarrow> head_ok s"
  shows "arp_inv (upd s a f) as"
proof -
  note u = upd_facts [OF arp_invD(1) [OF assms(1)] assms(2,3)]
  show ?thesis using assms(4,5) arp_invD(2) [OF assms(1)] u(2,3,5) unfolding arp_inv_def u(4) by blast
qed

section \<open>Loops over the cache that only read\<close>

lemma maxfd_loop_dls:
  "dls (heap s) p as \<Longrightarrow> \<exists>m. maxfd_loop mx p s = Some (Inr (m, s)) \<and> mx \<le> m \<and>
    (\<forall>a \<in> set as. state (entry_of s a) \<noteq> STATE_COMPLETE \<longrightarrow> domain_socket (entry_of s a) \<le> m)"
proof (induction as arbitrary: p mx)
  case Nil
  then show ?case by (subst maxfd_loop.simps) simp
next
  case (Cons a as)
  then obtain c where c: "p = Some a" "heap s a = Some c" "dls (heap s) (nextp c) as" by auto
  let ?mx = "if state c \<noteq> STATE_COMPLETE then (if mx > domain_socket c then mx else domain_socket c) else mx"
  obtain m where "maxfd_loop ?mx (nextp c) s = Some (Inr (m, s))" "?mx \<le> m"
      "\<forall>a \<in> set as. state (entry_of s a) \<noteq> STATE_COMPLETE \<longrightarrow> domain_socket (entry_of s a) \<le> m"
    using Cons.IH [OF c(3)] by blast
  moreover have "maxfd_loop mx p s = maxfd_loop ?mx (nextp c) s" using c by (subst maxfd_loop.simps) simp
  ultimately show ?case using c by (auto simp: entry_of_heap split: if_splits)
qed

lemma maxfd_ok:
  assumes "cache_rep s as"
  shows "\<exists>m. maxfd pf ud (cache s) s = Some (Inr (m, s)) \<and> pf \<le> m \<and> ud \<le> m \<and>
    (\<forall>a \<in> set as. state (entry_of s a) \<noteq> STATE_COMPLETE \<longrightarrow> domain_socket (entry_of s a) \<le> m)"
proof -
  have "dls (heap s) (cache s) as" using assms by (simp add: cache_rep_def)
  from maxfd_loop_dls [OF this, of "max pf ud"] show ?thesis
    using \<open>dls (heap s) (cache s) as\<close> by (cases as) (auto simp: maxfd_def max_def Let_def split: if_splits)
qed

lemma fdset_loop_dls:
  assumes "dls (heap s) p as" and "\<And>a. a \<in> set as \<Longrightarrow> state (entry_of s a) \<noteq> STATE_COMPLETE \<Longrightarrow> fd_ok (domain_socket (entry_of s a))"
  shows "fdset_loop fds p s = Some (Inr (rev (map (\<lambda>a. domain_socket (entry_of s a))
    (filter (\<lambda>a. state (entry_of s a) \<noteq> STATE_COMPLETE) as)) @ fds, s))"
  using assms
proof (induction as arbitrary: p fds)
  case Nil
  then show ?case by (subst fdset_loop.simps) simp
next
  case (Cons a as)
  then obtain c where c: "p = Some a" "heap s a = Some c" "dls (heap s) (nextp c) as" by auto
  have "state c \<noteq> STATE_COMPLETE \<Longrightarrow> fd_ok (domain_socket c)" using Cons.prems(2) [of a] c by (simp add: entry_of_heap)
  then show ?case using Cons.IH [OF c(3) Cons.prems(2)] c
    by (subst fdset_loop.simps) (auto simp: fd_set_add_def entry_of_heap)
qed

lemma scan_clients_idle:
  assumes "dls (heap s) p as" and "\<And>a. a \<in> set as \<Longrightarrow> state (entry_of s a) = STATE_COMPLETE"
  shows "scan_clients os pf devs rset p s = Some (Inr ((), s))"
  using assms
proof (induction as arbitrary: p)
  case Nil
  then show ?case by (subst scan_clients.simps) simp
next
  case (Cons a as)
  then obtain c where c: "p = Some a" "heap s a = Some c" "dls (heap s) (nextp c) as" by auto
  moreover have "state c = STATE_COMPLETE" using Cons.prems(2) [of a] c(2) entry_of_heap [OF c(2)] by simp
  ultimately show ?case using Cons.IH [OF c(3)] Cons.prems(2) by (subst scan_clients.simps) auto
qed

section \<open>A client's request\<close>

lemma logs_heap [simp]:
  "heap (logs cs s) = heap s" "cache (logs cs s) = cache s" "brk (logs cs s) = brk s"
  by (simp_all add: logs_def)

lemma entry_of_logs [simp]: "entry_of (logs cs s) = entry_of s"
  by (simp add: entry_of_def fun_eq_iff)

lemma logs_cstate [simp]:
  "cache_rep (logs cs s) as = cache_rep s as" "head_ok (logs cs s) = head_ok s" "busy (logs cs s) as = busy s as"
  "arp_inv (logs cs s) as = arp_inv s as" "wf_heap (logs cs s) = wf_heap s"
  by (simp_all add: cache_rep_def head_ok_def busy_def arp_inv_def wf_heap_def)

definition wf_devices :: "hwa_info list \<Rightarrow> bool" where
  "wf_devices devs \<longleftrightarrow> (\<forall>d \<in> set devs. length (if_haddr d) = 6)"

lemma wf_devices_simps [simp]: "wf_devices []" "wf_devices (d # ds) \<longleftrightarrow> length (if_haddr d) = 6 \<and> wf_devices ds"
  by (simp_all add: wf_devices_def)

text \<open>The ARP request for \<open>tgt\<close> that goes out of interface \<open>d\<close>.\<close>

definition request_packet :: "u32 \<Rightarrow> hwa_info \<Rightarrow> byte list" where
  "request_packet tgt d = enc_arp_fields (htons ARP_ID) (htons ARPHRD_ETHER) (htons PF_INET) 6 4 (htons ARPOP_REQUEST) @
     if_haddr d @ le32 (sin_addr (ip_addr d)) @ replicate 6 0 @ le32 tgt"

definition request_call :: "int \<Rightarrow> u32 \<Rightarrow> hwa_info \<Rightarrow> call" where
  "request_call pf tgt d = Sendto_ll pf (the_frame ETH_P_ARP_SH (replicate 8 0xFF) (if_haddr d) (request_packet tgt d))
     (the_dest ETH_P_ARP_SH (replicate 8 0xFF) (if_index d))"

lemma areq_broadcast_step:
  assumes "length (if_haddr d) = 6"
  shows "areq_broadcast os pf PF_INET 4 tgt (d # ds) s =
    (let c = request_call pf (sin_addr tgt) d
     in if os_int os (c # hist s) < 0 then Some (Inr (0, log_call c s))
        else areq_broadcast os pf PF_INET 4 tgt ds (log_call c s))"
proof -
  let ?pkt = "request_packet (sin_addr tgt) d @ replicate 38 0"
  have "build_arp (Some (replicate 68 0)) 68 ARPHRD_ETHER PF_INET 6 4 ARPOP_REQUEST
      (Some (if_haddr d)) (Some (le32 (sin_addr (ip_addr d)))) None (Some (le32 (sin_addr tgt))) = Inr (30, ?pkt)"
    using build_arp_ok [of 30 6 4 "replicate 68 0" 68 "Some (if_haddr d)" "Some (le32 (sin_addr (ip_addr d)))" None
        "Some (le32 (sin_addr tgt))" ARPHRD_ETHER PF_INET ARPOP_REQUEST] assms
    by (simp add: request_packet_def)
  moreover have "take 30 ?pkt = request_packet (sin_addr tgt) d"
    using assms by (simp add: request_packet_def)
  moreover have "30 \<le> length ?pkt" using assms by (simp add: request_packet_def)
  ultimately show ?thesis
    using assms arp_frames.send_ok [of 30 ?pkt "replicate 8 255" "if_haddr d" "request_call pf (sin_addr tgt) d" pf
        "if_index d" os s]
    by (simp add: request_call_def Let_def bnd_def)
qed

text \<open>
  The result of sending the calls \<open>cs\<close> one after another from the history \<open>h\<close> on: \<open>k\<close> of them were made, all but the last
  succeeded, and the last one failed exactly when the result is 0; when the result is 1, all of them were made.
\<close>

definition sent_until :: "os \<Rightarrow> call list \<Rightarrow> call list \<Rightarrow> nat \<Rightarrow> int \<Rightarrow> bool" where
  "sent_until os cs h k r \<longleftrightarrow> (\<forall>i. 0 < i \<longrightarrow> i < k \<longrightarrow> 0 \<le> os_int os (rev (take i cs) @ h)) \<and>
     (r = 1 \<and> k = length cs \<and> (cs \<noteq> [] \<longrightarrow> 0 \<le> os_int os (rev cs @ h)) \<or>
      r = 0 \<and> 0 < k \<and> k \<le> length cs \<and> os_int os (rev (take k cs) @ h) < 0)"

lemma sent_until_Cons:
  assumes "0 \<le> os_int os (c # h)" and "sent_until os cs (c # h) k r"
  shows "sent_until os (c # cs) h (Suc k) r"
proof -
  have "0 \<le> os_int os (rev (take i (c # cs)) @ h)" if "0 < i" "i < Suc k" for i
    using that assms by (cases i; cases "i = 1") (auto simp: sent_until_def)
  moreover from assms have "r = 1 \<and> k = length cs \<and> 0 \<le> os_int os (rev cs @ c # h) \<or> r = 0 \<and> 0 < k \<and> k \<le> length cs \<and> os_int os (rev (take k cs) @ c # h) < 0"
    by (cases cs) (auto simp: sent_until_def)
  ultimately show ?thesis unfolding sent_until_def by auto
qed

lemma areq_broadcast_runs:
  assumes "wf_devices devs"
  shows "\<exists>k r. areq_broadcast os pf PF_INET 4 tgt devs s =
      Some (Inr (r, logs (rev (map (request_call pf (sin_addr tgt)) (take k devs))) s)) \<and>
    sent_until os (map (request_call pf (sin_addr tgt)) devs) (hist s) k r"
  using assms
proof (induction devs arbitrary: s)
  case Nil
  show ?case by (intro exI [of _ 0] exI [of _ 1]) (simp add: sent_until_def)
next
  case (Cons d ds)
  let ?c = "request_call pf (sin_addr tgt) d"
  have d: "length (if_haddr d) = 6" using Cons.prems by simp
  show ?case
  proof (cases "os_int os (?c # hist s) < 0")
    case True
    then show ?thesis using areq_broadcast_step [OF d, of os pf tgt ds s]
      by (intro exI [of _ 1] exI [of _ 0]) (simp add: Let_def log_call_logs sent_until_def)
  next
    case False
    obtain k r where kr: "areq_broadcast os pf PF_INET 4 tgt ds (log_call ?c s) =
        Some (Inr (r, logs (rev (map (request_call pf (sin_addr tgt)) (take k ds))) (log_call ?c s)))"
        "sent_until os (map (request_call pf (sin_addr tgt)) ds) (hist (log_call ?c s)) k r"
      using Cons.IH [of "log_call ?c s"] Cons.prems by auto
    then have "sent_until os (map (request_call pf (sin_addr tgt)) (d # ds)) (hist s) (Suc k) r"
      using False by (simp add: sent_until_Cons)
    then show ?thesis using kr False areq_broadcast_step [OF d, of os pf tgt ds s]
      by (intro exI [of _ "Suc k"] exI [of _ r]) (simp add: Let_def)
  qed
qed

lemma wf_dec_areq: "length buf = 20 \<Longrightarrow> wf_sockaddr (addr (dec_areq buf))"
  by (simp add: dec_areq_def dec_sockaddr_def wf_sockaddr_def)

lemma busy_unique:
  assumes "arp_inv s as" and "a \<in> set as" and "b \<in> set as" and "state (entry_of s a) \<noteq> STATE_COMPLETE" and "a \<noteq> b"
  shows "state (entry_of s b) = STATE_COMPLETE"
  using assms arp_invD(3) [OF assms(1)] unfolding table_ok_def by blast

lemma entry_okD:
  assumes "arp_inv s as" and "a \<in> set as"
  shows "entry_ok (entry_of s a)"
  using assms arp_invD(3) [OF assms(1)] unfolding table_ok_def by blast

text \<open>A request that is not one \<open>struct areq\<close> for an IPv4 address is dropped.\<close>

lemma handle_areq_bad:
  assumes "heap s a = Some c" and "state c = STATE_CONNECTION"
    and "case os_recv os (Recv (domain_socket c) 21 # hist s) of
      None \<Rightarrow> True | Some buf \<Rightarrow> length buf \<noteq> 20 \<or> sa_family (addr (dec_areq buf)) \<noteq> AF_INET"
  shows "handle_areq os pf (Some a) devs s = Some (Inr (0, log_call (Recv (domain_socket c) 21) s))"
  using assms by (auto simp: handle_areq_def sys_recv_def bnd_def Let_def split: option.splits)

lemma handle_areq_lookup:
  assumes "arp_inv s as" and "a \<in> set as" and "heap s a = Some c" and "state c = STATE_CONNECTION"
    and "os_recv os (Recv (domain_socket c) 21 # hist s) = Some buf" and "length buf = 20"
    and ip: "ip = addr (dec_areq buf)" "sa_family ip = AF_INET"
  shows "find (\<lambda>b. ipaddress (the (heap s b)) = ip) as = Some b \<Longrightarrow>
      handle_areq os pf (Some a) devs s =
        Some (Inr (0, logs [Send (domain_socket c) (enc_hwaddr (hw (entry_of s b))), Recv (domain_socket c) 21] s))"
    and "find (\<lambda>b. ipaddress (the (heap s b)) = ip) as = None \<Longrightarrow>
      handle_areq os pf (Some a) devs s = areq_broadcast os pf PF_INET 4 ip devs
        (upd (upd (log_call (Recv (domain_socket c) 21) s) a (\<lambda>c. c\<lparr>state := STATE_INCOMPLETE\<rparr>)) a (\<lambda>c. c\<lparr>ipaddress := ip\<rparr>))"
proof -
  let ?s = "log_call (Recv (domain_socket c) 21) s"
  have wf: "wf_sockaddr ip" using wf_dec_areq assms(6) ip by simp
  have rep: "cache_rep ?s as" "wf_heap ?s"
    using assms(1) arp_inv_wf [of ?s as] arp_invD(1) [OF assms(1)] by simp_all
  have look: "getCacheByIpAddr (cache s) (Some ip) ?s = Some (Inr (find (\<lambda>b. ipaddress (the (heap s b)) = ip) as, ?s))"
    using getCacheByIpAddr_find [OF rep wf] by simp
  {
    assume f: "find (\<lambda>b. ipaddress (the (heap s b)) = ip) as = Some b"
    then have b: "b \<in> set as" "ipaddress (entry_of s b) = ip" by (auto simp: find_Some_iff entry_simps)
    then obtain d where d: "heap s b = Some d" using arp_inv_heap assms(1) by blast
    have "a \<noteq> b" using b(2) ip(2) entry_okD [OF assms(1,2)] assms(3,4)
      by (auto simp: entry_ok_def entry_simps zero_sockaddr_def)
    with busy_unique [OF assms(1,2) b(1)] assms(3,4) d have "state d = STATE_COMPLETE" by (simp add: entry_simps)
    then show "handle_areq os pf (Some a) devs s =
        Some (Inr (0, logs [Send (domain_socket c) (enc_hwaddr (hw (entry_of s b))), Recv (domain_socket c) 21] s))"
      using assms(3-6) ip(2) look f d
      by (simp add: handle_areq_def sys_recv_def Let_def get_cache_def ip(1) [symmetric] sys_def bnd_def entry_simps
          log_call_logs)
  }
  {
    assume f: "find (\<lambda>b. ipaddress (the (heap s b)) = ip) as = None"
    then show "handle_areq os pf (Some a) devs s = areq_broadcast os pf PF_INET 4 ip devs
        (upd (upd ?s a (\<lambda>c. c\<lparr>state := STATE_INCOMPLETE\<rparr>)) a (\<lambda>c. c\<lparr>ipaddress := ip\<rparr>))"
      using assms(3-6) ip(2) look
      by (simp add: handle_areq_def sys_recv_def Let_def get_cache_def ip(1) [symmetric] bnd_def)
  }
qed

lemma table_ok_upd:
  assumes "table_ok e as" and "a \<in> set as" and "entry_ok c"
    and "state c \<noteq> STATE_COMPLETE \<longrightarrow> (\<forall>b \<in> set as. b \<noteq> a \<longrightarrow> state (e b) = STATE_COMPLETE)"
    and "\<forall>b \<in> set as. b \<noteq> a \<longrightarrow> ipaddress (e b) \<noteq> ipaddress c"
  shows "table_ok (e(a := c)) as"
proof -
  have t: "\<And>x. x \<in> set as \<Longrightarrow> entry_ok (e x)"
      "\<And>x y. x \<in> set as \<Longrightarrow> y \<in> set as \<Longrightarrow> state (e x) \<noteq> STATE_CONNECTION \<Longrightarrow> ipaddress (e x) = ipaddress (e y) \<Longrightarrow> x = y"
      "\<And>x y. x \<in> set as \<Longrightarrow> y \<in> set as \<Longrightarrow> state (e x) \<noteq> STATE_COMPLETE \<Longrightarrow> state (e y) \<noteq> STATE_COMPLETE \<Longrightarrow> x = y"
    using assms(1) unfolding table_ok_def by blast+
  have "\<forall>x \<in> set as. entry_ok ((e(a := c)) x)" using t(1) assms(3) by simp
  moreover have "x = y" if "x \<in> set as" "y \<in> set as" "state ((e(a := c)) x) \<noteq> STATE_CONNECTION"
      "ipaddress ((e(a := c)) x) = ipaddress ((e(a := c)) y)" for x y
    using that assms(5) t(2) by (metis fun_upd_apply)
  moreover have "x = y" if "x \<in> set as" "y \<in> set as" "state ((e(a := c)) x) \<noteq> STATE_COMPLETE"
      "state ((e(a := c)) y) \<noteq> STATE_COMPLETE" for x y
    using that assms(4) t(3) by (metis fun_upd_apply)
  ultimately show ?thesis unfolding table_ok_def by blast
qed

lemma arp_inv_upd2:
  assumes "arp_inv s as" and "a \<in> set as" and "data_only f" and "data_only g"
    and "table_ok ((entry_of s)(a := strip (g (strip (f (entry_of s a)))))) as"
    and "busy (upd (upd s a f) a g) as \<Longrightarrow> head_ok s"
  shows "arp_inv (upd (upd s a f) a g) as"
proof -
  note u = upd_facts [OF arp_invD(1) [OF assms(1)] assms(2,3)]
  note v = upd_facts [OF u(2) assms(2,4)]
  have "entry_of (upd (upd s a f) a g) = (entry_of s)(a := strip (g (strip (f (entry_of s a)))))"
    unfolding v(4) u(4) by simp
  then show ?thesis using assms(5,6) arp_invD(2) [OF assms(1)] u(3,5) v(2,3,5) unfolding arp_inv_def by metis
qed

lemma strip_entry [simp]: "strip (entry_of s a) = entry_of s a"
  by (simp add: entry_of_def)

text \<open>What a turn of the loop does with a client's request, on every branch.\<close>

lemma handle_areq_runs:
  assumes inv: "arp_inv s as" and a: "a \<in> set as" and st: "state (entry_of s a) = STATE_CONNECTION" and "wf_devices devs"
  shows "runs_to (handle_areq os pf (Some a) devs) s (\<lambda>r t. arp_inv t as \<and>
    (\<forall>b \<in> set as. b \<noteq> a \<longrightarrow> entry_of t b = entry_of s b) \<and> state (entry_of t a) \<noteq> STATE_COMPLETE \<and>
    domain_socket (entry_of t a) = domain_socket (entry_of s a))"
proof -
  obtain c where c: "heap s a = Some c" "state c = STATE_CONNECTION"
    using arp_inv_heap [OF inv a] st by (auto simp: entry_simps)
  let ?got = "os_recv os (Recv (domain_socket c) 21 # hist s)"
  show ?thesis
  proof (cases "case ?got of None \<Rightarrow> True | Some buf \<Rightarrow> length buf \<noteq> 20 \<or> sa_family (addr (dec_areq buf)) \<noteq> AF_INET")
    case True
    then show ?thesis using handle_areq_bad [OF c True] inv c by (simp add: runs_to_def entry_simps)
  next
    case False
    then obtain buf where buf: "?got = Some buf" "length buf = 20" "sa_family (addr (dec_areq buf)) = AF_INET"
      by (auto split: option.splits)
    let ?ip = "addr (dec_areq buf)"
    note hl = handle_areq_lookup [OF inv a c buf(1,2) refl buf(3)]
    show ?thesis
    proof (cases "find (\<lambda>b. ipaddress (the (heap s b)) = ?ip) as")
      case (Some b)
      then show ?thesis using hl(1) [OF Some] inv c by (simp add: runs_to_def entry_simps)
    next
      case None
      let ?s0 = "log_call (Recv (domain_socket c) 21) s"
      let ?f = "\<lambda>c. c\<lparr>state := STATE_INCOMPLETE\<rparr>" and ?g = "\<lambda>c. c\<lparr>ipaddress := ?ip\<rparr>"
      let ?t = "upd (upd ?s0 a ?f) a ?g"
      have inv0: "arp_inv ?s0 as" using inv by simp
      have e: "entry_of ?t = (entry_of s)(a := (entry_of s a)\<lparr>state := STATE_INCOMPLETE, ipaddress := ?ip\<rparr>)"
        using upd_facts(4) [OF upd_facts(2) [OF arp_invD(1) [OF inv0] a, of ?f] a, of ?g]
          upd_facts(4) [OF arp_invD(1) [OF inv0] a, of ?f] by simp
      have new: "\<forall>b \<in> set as. b \<noteq> a \<longrightarrow> ipaddress (entry_of s b) \<noteq> ?ip"
        using None by (auto simp: find_None_iff entry_simps)
      have "entry_ok ((entry_of s a)\<lparr>state := STATE_INCOMPLETE, ipaddress := ?ip\<rparr>)"
        using entry_okD [OF inv a] buf wf_dec_areq [OF buf(2)] st by (auto simp: entry_ok_def wf_Cache_def)
      then have "table_ok ((entry_of s)(a := (entry_of s a)\<lparr>state := STATE_INCOMPLETE, ipaddress := ?ip\<rparr>)) as"
        using new st busy_unique [OF inv a] by (intro table_ok_upd [OF arp_invD(3) [OF inv] a]) auto
      moreover have "head_ok s" using arp_invD(4) [OF inv] a st by (force simp: busy_def)
      ultimately have "arp_inv ?t as"
        using arp_inv_upd2 [OF inv0 a, of ?f ?g] by simp
      moreover obtain k r where "areq_broadcast os pf PF_INET 4 ?ip devs ?t =
          Some (Inr (r, logs (rev (map (request_call pf (sin_addr ?ip)) (take k devs))) ?t))"
        using areq_broadcast_runs [OF assms(4)] by blast
      ultimately show ?thesis using hl(2) [OF None] e st by (simp add: runs_to_def)
    qed
  qed
qed

section \<open>Removing a client\<close>

lemma table_ok_subset:
  assumes "table_ok e as" and "set bs \<subseteq> set as" and "\<And>b. b \<in> set bs \<Longrightarrow> e' b = e b"
  shows "table_ok e' bs"
proof -
  have "table_ok e bs" using assms(1,2) unfolding table_ok_def by blast
  then show ?thesis unfolding table_ok_def using assms(3) by simp
qed

lemma drop_client_runs:
  assumes inv: "arp_inv s (pre @ a # post)" and st: "state (entry_of s a) \<noteq> STATE_COMPLETE"
  shows "runs_to (drop_client (Some a)) s (\<lambda>_ t. arp_inv t (pre @ post) \<and> \<not> busy t (pre @ post) \<and>
    (\<forall>b \<in> set (pre @ post). entry_of t b = entry_of s b) \<and>
    hist t = Free a # Close (domain_socket (entry_of s a)) # hist s)"
proof -
  let ?as = "pre @ a # post" and ?f = "\<lambda>c. c\<lparr>domain_socket := -1\<rparr>"
  obtain c where c: "heap s a = Some c" using arp_inv_heap [OF inv, of a] by auto
  let ?s1 = "upd (log_call (Close (domain_socket c)) s) a ?f"
  have rep0: "cache_rep (log_call (Close (domain_socket c)) s) ?as" using arp_invD(1) [OF inv] by simp
  have a: "a \<in> set ?as" by simp
  note u = upd_facts [OF rep0 a data_only_simps(2) [of "-1"]]
  have dist: "distinct ?as" using arp_invD(1) [OF inv] by (simp add: cache_rep_def)
  have wf1: "wf_heap ?s1" using arp_inv_wf [OF inv] c by (auto simp: wf_heap_def wf_Cache_def)
  have hd: "head_ok ?s1" using u(3) arp_invD(4) [OF inv] st a unfolding busy_def head_ok_log_call by blast
  have ip: "ipaddress (entry_of s b) \<noteq> ipaddress (entry_of s a)" if "b \<in> set ?as" "b \<noteq> a" for b
    using that arp_invD(3) [OF inv] busy_unique [OF inv a that(1) st] by (force simp: table_ok_def)
  have others: "\<not> same_as ?s1 a b" if "b \<in> set pre" for b
    using ip [of b] that dist c by (auto simp: same_entry_def entry_simps)
  have run: "drop_client (Some a) s = bnd (removeFromCache Addr_of_cache (Some a)) (\<lambda>_. ret ()) ?s1"
    using c by (simp add: drop_client_def do_call_def bnd_def)
  have "runs_to (removeFromCache Addr_of_cache (Some a)) ?s1 (\<lambda>r t.
      r \<and> cache_rep t (pre @ post) \<and> heap t a = None \<and> (pre \<noteq> [] \<longrightarrow> head_ok t) \<and>
      hist t = Free a # hist ?s1 \<and> (\<forall>x. x \<noteq> a \<longrightarrow> map_option strip (heap t x) = map_option strip (heap ?s1 x)))"
    by (rule removeFromCache_runs [OF u(2) wf1 hd _ _ others]) simp_all
  then obtain r t where t: "removeFromCache Addr_of_cache (Some a) ?s1 = Some (Inr (r, t))" "cache_rep t (pre @ post)"
      "heap t a = None" "hist t = Free a # hist ?s1"
      "\<forall>b. b \<noteq> a \<longrightarrow> map_option strip (heap t b) = map_option strip (heap ?s1 b)"
    unfolding runs_to_def by blast
  have e: "entry_of t b = entry_of s b" if b: "b \<in> set (pre @ post)" for b
  proof -
    have "b \<noteq> a" "b \<in> set ?as" using b dist by auto
    then show ?thesis using t(5) arp_inv_heap [OF inv, of b] by (intro entry_of_strip_eq) auto
  qed
  have "table_ok (entry_of t) (pre @ post)" using arp_invD(3) [OF inv] e by (auto intro: table_ok_subset)
  moreover have "state (entry_of s b) = STATE_COMPLETE" if "b \<in> set (pre @ post)" for b
    using busy_unique [OF inv a _ st, of b] that dist by auto
  then have "\<not> busy t (pre @ post)" unfolding busy_def using e by simp
  moreover have "b \<in> set (pre @ post)" if "heap t b \<noteq> None" for b
  proof -
    have "b \<noteq> a" using that t(3) by auto
    moreover from this have "map_option strip (heap t b) = map_option strip (heap s b)" using t(5) by simp
    then have "heap s b \<noteq> None" using that by (metis option.map_disc_iff)
    ultimately show ?thesis using arp_invD(2) [OF inv, of b] by simp
  qed
  ultimately show ?thesis using run t e c by (simp add: runs_to_def arp_inv_def entry_simps bnd_def)
qed

section \<open>The scan of the clients\<close>

text \<open>The scan runs over the completed entries in front of the client, and over those behind it.\<close>

lemma scan_clients_skip:
  assumes "dls (heap s) p (pre @ as)" and "\<And>a. a \<in> set pre \<Longrightarrow> state (entry_of s a) = STATE_COMPLETE"
  shows "\<exists>q. dls (heap s) q as \<and> scan_clients os pf devs rset p s = scan_clients os pf devs rset q s"
  using assms
proof (induction pre arbitrary: p)
  case (Cons a pre)
  then obtain c where c: "p = Some a" "heap s a = Some c" "dls (heap s) (nextp c) (pre @ as)" by auto
  moreover have "state c = STATE_COMPLETE" using Cons.prems(2) [of a] c(2) by (simp add: entry_simps)
  ultimately have "scan_clients os pf devs rset p s = scan_clients os pf devs rset (nextp c) s"
    by (subst scan_clients.simps) simp
  then show ?case using Cons.IH [OF c(3)] Cons.prems(2) by auto
qed auto

lemma dls_suffix: "dls h p (pre @ a # post) \<Longrightarrow> h a = Some c \<Longrightarrow> dls h (nextp c) post"
  by (induction pre arbitrary: p) auto

lemma dls_append: "dls h p (pre @ post) \<Longrightarrow> \<exists>q. dls h q post"
  by (induction pre arbitrary: p) auto

text \<open>What every part of a turn promises: the invariant, no further client, and every completed entry kept as it was.\<close>

definition keeps_table :: "cstate \<Rightarrow> addr list \<Rightarrow> cstate \<Rightarrow> bool" where
  "keeps_table s as t \<longleftrightarrow> (\<exists>bs. arp_inv t bs \<and> (busy t bs \<longrightarrow> busy s as) \<and>
     (\<forall>a \<in> set as. state (entry_of s a) = STATE_COMPLETE \<longrightarrow> a \<in> set bs \<and> entry_of t a = entry_of s a))"

lemma idle_next:
  assumes "arp_inv t (pre @ a # post)" and "state (entry_of t a) \<noteq> STATE_COMPLETE" and "heap t a = Some c"
    and "dls (heap u) (nextp c) post" and "\<And>b. b \<in> set post \<Longrightarrow> entry_of u b = entry_of t b"
  shows "scan_clients os pf devs rset (nextp c) u = Some (Inr ((), u))"
proof (rule scan_clients_idle [OF assms(4)])
  fix b assume b: "b \<in> set post"
  then have "b \<noteq> a" using arp_invD(1) [OF assms(1)] by (auto simp: cache_rep_def)
  then show "state (entry_of u b) = STATE_COMPLETE"
    using b assms(5) busy_unique [OF assms(1) _ _ assms(2), of b] by simp
qed

lemma scan_client_readable:
  assumes inv: "arp_inv s (pre @ a # post)" and dev: "wf_devices devs" and c: "heap s a = Some c"
    and st: "state c \<noteq> STATE_COMPLETE" and readable: "rset (domain_socket c)"
  shows "runs_to (scan_clients os pf devs rset (Some a)) s (\<lambda>_. keeps_table s (pre @ a # post))"
proof -
  let ?as = "pre @ a # post"
  let ?h = "if state c = STATE_CONNECTION then handle_areq os pf (Some a) devs else ret 0"
  have a: "a \<in> set ?as" "state (entry_of s a) \<noteq> STATE_COMPLETE" using c st by (simp_all add: entry_simps)
  have dist: "distinct ?as" using arp_invD(1) [OF inv] by (simp add: cache_rep_def)
  have fd: "fd_ok (domain_socket c)" using entry_okD [OF inv a(1)] a(2) c by (auto simp: entry_ok_def entry_simps)
  have "runs_to ?h s (\<lambda>r t. arp_inv t ?as \<and> (\<forall>b \<in> set ?as. b \<noteq> a \<longrightarrow> entry_of t b = entry_of s b) \<and>
      state (entry_of t a) \<noteq> STATE_COMPLETE)"
    using handle_areq_runs [OF inv a(1) _ dev, of os pf] inv a(2) c by (auto simp: entry_simps elim!: runs_to_mono)
  then obtain r t where t: "?h s = Some (Inr (r, t))" "arp_inv t ?as" "\<forall>b \<in> set ?as. b \<noteq> a \<longrightarrow> entry_of t b = entry_of s b"
      "state (entry_of t a) \<noteq> STATE_COMPLETE" by (auto simp: runs_to_def)
  obtain d where d: "heap t a = Some d" using arp_inv_heap [OF t(2) a(1)] by blast
  have next_t: "dls (heap t) (nextp d) post"
    using dls_suffix [of "heap t" "cache t" pre a post d] arp_invD(1) [OF t(2)] d by (simp add: cache_rep_def)
  have step: "scan_clients os pf devs rset (Some a) s =
      (if r = 0 then bnd (drop_client (Some a)) (\<lambda>_. scan_clients os pf devs rset (nextp d)) t
       else scan_clients os pf devs rset (nextp d) t)"
    using c fd readable st t(1) d by (subst scan_clients.simps) (auto simp: fd_isset_def split: if_splits)
  show ?thesis
  proof (cases "r = 0")
    case False
    have "scan_clients os pf devs rset (nextp d) t = Some (Inr ((), t))"
      using idle_next [OF t(2,4) d next_t] by simp
    then show ?thesis using step False t a by (auto simp: runs_to_def keeps_table_def busy_def)
  next
    case True
    obtain u where u: "drop_client (Some a) t = Some (Inr ((), u))" "arp_inv u (pre @ post)" "\<not> busy u (pre @ post)"
        "\<forall>b \<in> set (pre @ post). entry_of u b = entry_of t b"
      using drop_client_runs [OF t(2,4)] by (auto simp: runs_to_def)
    have "\<exists>q. dls (heap u) q post" using arp_invD(1) [OF u(2)] by (auto simp: cache_rep_def dest: dls_append)
    then have "dls (heap u) (nextp d) post" using next_t by (cases post) auto
    then have "scan_clients os pf devs rset (nextp d) u = Some (Inr ((), u))"
      using idle_next [OF t(2,4) d] u(4) by simp
    moreover have "entry_of u b = entry_of s b" if "b \<in> set (pre @ post)" for b
      using u(4) t(3) that dist by auto
    ultimately show ?thesis using step True u a(2)
      by (auto simp: runs_to_def keeps_table_def bnd_def intro!: exI [of _ "pre @ post"])
  qed
qed

lemma scan_clients_runs:
  assumes inv: "arp_inv s as" and dev: "wf_devices devs"
  shows "runs_to (scan_clients os pf devs rset (cache s)) s (\<lambda>_. keeps_table s as)"
proof (cases "busy s as")
  case False
  then have "scan_clients os pf devs rset (cache s) s = Some (Inr ((), s))"
    using arp_invD(1) [OF inv] by (intro scan_clients_idle [of s _ as]) (auto simp: cache_rep_def busy_def)
  then show ?thesis using inv by (auto simp: runs_to_def keeps_table_def)
next
  case True
  then obtain a where a: "a \<in> set as" "state (entry_of s a) \<noteq> STATE_COMPLETE" by (auto simp: busy_def)
  then obtain pre post where as: "as = pre @ a # post" by (auto simp: in_set_conv_decomp)
  obtain c where c: "heap s a = Some c" using arp_inv_heap [OF inv a(1)] by blast
  have st: "state c \<noteq> STATE_COMPLETE" using a(2) c by (simp add: entry_simps)
  have "state (entry_of s b) = STATE_COMPLETE" if "b \<in> set pre" for b
    using busy_unique [OF inv a(1) _ a(2), of b] that as arp_invD(1) [OF inv] by (auto simp: cache_rep_def)
  then obtain q where "dls (heap s) q (a # post)"
      and "scan_clients os pf devs rset (cache s) s = scan_clients os pf devs rset q s"
    using scan_clients_skip [of s "cache s" pre "a # post"] arp_invD(1) [OF inv] as by (auto simp: cache_rep_def)
  then have skip: "scan_clients os pf devs rset (cache s) s = scan_clients os pf devs rset (Some a) s" by simp
  show ?thesis
  proof (cases "rset (domain_socket c)")
    case False
    have "fd_ok (domain_socket c)" using entry_okD [OF inv a(1)] a(2) c by (auto simp: entry_ok_def entry_simps)
    then have "scan_clients os pf devs rset (Some a) s = scan_clients os pf devs rset (nextp c) s"
      using c st False by (subst scan_clients.simps) (simp add: fd_isset_def)
    also have "\<dots> = Some (Inr ((), s))"
      using idle_next [OF inv [unfolded as] a(2) c] dls_suffix [of "heap s" "cache s" pre a post c] arp_invD(1) [OF inv] c as
      by (simp add: cache_rep_def)
    finally show ?thesis using inv skip True by (auto simp: runs_to_def keeps_table_def)
  next
    case readable: True
    from scan_client_readable [OF inv [unfolded as] dev c st, of rset os pf] readable
    show ?thesis using skip as by (simp add: runs_to_def)
  qed
qed

section \<open>A reply\<close>

text \<open>The entries a reply is relevant for, what becomes of them, and the calls this takes.\<close>

definition awaits :: "sockaddr \<Rightarrow> Cache \<Rightarrow> bool" where
  "awaits repip c \<longleftrightarrow> ipaddress c = repip \<and> state c = STATE_INCOMPLETE"

definition answered :: "sockaddr \<Rightarrow> hwaddr \<Rightarrow> Cache \<Rightarrow> Cache" where
  "answered repip new c =
     (if awaits repip c then c\<lparr>hw := new, domain_socket := -1, state := STATE_COMPLETE\<rparr> else c)"

definition answer_calls :: "sockaddr \<Rightarrow> hwaddr \<Rightarrow> Cache \<Rightarrow> call list" where
  "answer_calls repip new c =
     (if awaits repip c then [Send (domain_socket c) (enc_hwaddr new), Close (domain_socket c)] else [])"

definition answered_heap ::
  "sockaddr \<Rightarrow> hwaddr \<Rightarrow> addr list \<Rightarrow> (addr \<Rightarrow> Cache option) \<Rightarrow> addr \<Rightarrow> Cache option" where
  "answered_heap repip new as h a = (if a \<in> set as then map_option (answered repip new) (h a) else h a)"

definition after_reply :: "sockaddr \<Rightarrow> hwaddr \<Rightarrow> addr list \<Rightarrow> cstate \<Rightarrow> cstate" where
  "after_reply repip new as s =
     (logs (rev (concat (map (\<lambda>a. answer_calls repip new (entry_of s a)) as))) s)
       \<lparr>heap := answered_heap repip new as (heap s)\<rparr>"

lemma answered_heap_Nil [simp]: "answered_heap repip new [] h = h"
  by (simp add: answered_heap_def fun_eq_iff)

lemma answered_links [simp]:
  "nextp (answered repip new c) = nextp c" "prevp (answered repip new c) = prevp c"
  "strip (answered repip new c) = answered repip new (strip c)" "ipaddress (answered repip new c) = ipaddress c"
  by (simp_all add: answered_def awaits_def strip_def)

lemma answer_calls_strip [simp]: "answer_calls repip new (strip c) = answer_calls repip new c"
  by (simp add: answer_calls_def awaits_def)

lemma reply_loop_step:
  assumes "heap s a = Some c" and "wf_sockaddr repip" and "wf_sockaddr (ipaddress c)"
  shows "reply_loop os repip new (Some a) s =
    reply_loop os repip new (nextp c) ((logs (rev (answer_calls repip new c)) s)\<lparr>heap := (heap s)(a \<mapsto> answered repip new c)\<rparr>)"
proof -
  have "memeq (enc_sockaddr repip) (enc_sockaddr (ipaddress c)) 16 = Inr (repip = ipaddress c)"
    using assms(2,3) by (rule memeq_sockaddr)
  moreover have "logs [] s\<lparr>heap := (heap s)(a \<mapsto> c)\<rparr> = s" using assms(1) by (simp add: fun_upd_idem)
  ultimately show ?thesis using assms(1)
    by (subst reply_loop.simps)
      (auto simp: sys_def do_call_def bnd_def answer_calls_def answered_def awaits_def logs_def log_call_def)
qed

lemma after_reply_Cons:
  assumes "heap s a = Some c" and "a \<notin> set as"
  shows "after_reply repip new as ((logs (rev (answer_calls repip new c)) s)\<lparr>heap := (heap s)(a \<mapsto> answered repip new c)\<rparr>) =
    after_reply repip new (a # as) s" (is "after_reply _ _ _ ?s1 = _")
proof -
  have m: "map (\<lambda>a. answer_calls repip new (entry_of ?s1 a)) as = map (\<lambda>a. answer_calls repip new (entry_of s a)) as"
    using assms(2) by (auto simp: entry_of_def)
  have h: "answered_heap repip new as (heap ?s1) = answered_heap repip new (a # as) (heap s)"
    using assms by (auto simp: answered_heap_def fun_eq_iff)
  have "answer_calls repip new (entry_of s a) = answer_calls repip new c" using assms(1) by (simp add: entry_of_def)
  then show ?thesis unfolding after_reply_def m h by (simp add: logs_def)
qed

lemma reply_loop_runs:
  assumes "dls (heap s) p as" and "distinct as" and "wf_heap s" and "wf_sockaddr repip"
    and new: "wf_hwaddr new" "unat (sll_halen new) \<le> 8"
  shows "reply_loop os repip new p s = Some (Inr ((), after_reply repip new as s))"
  using assms(1-3)
proof (induction as arbitrary: p s)
  case Nil
  then show ?case by (subst reply_loop.simps) (simp add: after_reply_def)
next
  case (Cons a as)
  then obtain c where c: "p = Some a" "heap s a = Some c" "dls (heap s) (nextp c) as" by auto
  let ?s1 = "(logs (rev (answer_calls repip new c)) s)\<lparr>heap := (heap s)(a \<mapsto> answered repip new c)\<rparr>"
  have wf: "wf_sockaddr (ipaddress c)" using Cons.prems(3) c(2) by (auto simp: wf_heap_def wf_Cache_def)
  then have "reply_loop os repip new p s = reply_loop os repip new (nextp c) ?s1"
    using reply_loop_step [OF c(2) assms(4)] c(1) by simp
  also have "\<dots> = Some (Inr ((), after_reply repip new as ?s1))"
  proof (rule Cons.IH)
    show "dls (heap ?s1) (nextp c) as" "distinct as" using c(3) Cons.prems(2) by simp_all
    show "wf_heap ?s1" using Cons.prems(3) wf c(2) new
      by (auto simp: wf_heap_def answered_def wf_Cache_def)
  qed
  also have "after_reply repip new as ?s1 = after_reply repip new (a # as) s"
    using after_reply_Cons [OF c(2)] Cons.prems(2) by simp
  finally show ?case .
qed

lemma after_reply_simps [simp]:
  "heap (after_reply repip new as s) = answered_heap repip new as (heap s)"
  "cache (after_reply repip new as s) = cache s" "brk (after_reply repip new as s) = brk s"
  by (simp_all add: after_reply_def)

lemma dls_answered: "dls h p bs \<Longrightarrow> dls (answered_heap repip new as h) p bs"
proof (induction bs arbitrary: p)
  case (Cons b bs)
  then have "back_link (answered_heap repip new as h) b bs"
    by (cases bs) (auto simp: answered_heap_def)
  moreover have "\<exists>c. answered_heap repip new as h b = Some c \<and> nextp c = nextp d" if "h b = Some d" for d
    using that by (simp add: answered_heap_def)
  ultimately show ?case using Cons by fastforce
qed simp

lemma entry_of_after_reply:
  "a \<in> set as \<Longrightarrow> heap s a \<noteq> None \<Longrightarrow> entry_of (after_reply repip new as s) a = answered repip new (entry_of s a)"
  by (auto simp: entry_of_def answered_heap_def)

lemma answered_heap_None [simp]: "answered_heap repip new as h a = None \<longleftrightarrow> h a = None"
  by (simp add: answered_heap_def)

lemma state_answered: "state (answered repip new c) \<noteq> STATE_COMPLETE \<Longrightarrow> state c \<noteq> STATE_COMPLETE"
  by (auto simp: answered_def split: if_splits)

lemma answered_ok: "entry_ok c \<Longrightarrow> wf_hwaddr new \<Longrightarrow> unat (sll_halen new) \<le> 8 \<Longrightarrow> entry_ok (answered repip new c)"
  by (auto simp: entry_ok_def answered_def awaits_def wf_Cache_def)

lemma arp_inv_after_reply:
  assumes inv: "arp_inv s as" and new: "wf_hwaddr new" "unat (sll_halen new) \<le> 8"
  shows "arp_inv (after_reply repip new as s) as" and "busy (after_reply repip new as s) as \<Longrightarrow> busy s as"
proof -
  let ?t = "after_reply repip new as s"
  have e: "entry_of ?t a = answered repip new (entry_of s a)" if "a \<in> set as" for a
    using that arp_inv_heap [OF inv that] by (auto intro: entry_of_after_reply)
  show b: "busy ?t as \<Longrightarrow> busy s as" unfolding busy_def using e state_answered by metis
  have ok: "\<forall>a \<in> set as. entry_ok (entry_of ?t a)" using e entry_okD [OF inv] answered_ok new by simp
  have "state c \<noteq> STATE_CONNECTION" if "state (answered repip new c) \<noteq> STATE_CONNECTION" for c
    using that by (auto simp: answered_def awaits_def split: if_splits)
  then have "table_ok (entry_of ?t) as"
    using arp_invD(3) [OF inv] ok e state_answered unfolding table_ok_def by (metis answered_links(4))
  moreover have "cache_rep ?t as" using arp_invD(1) [OF inv] by (auto simp: cache_rep_def intro: dls_answered)
  moreover have "head_ok ?t" if "head_ok s" using that by (auto simp: head_ok_def answered_heap_def)
  ultimately show "arp_inv ?t as" using b arp_invD(2,4) [OF inv] by (simp add: arp_inv_def)
qed

text \<open>A packet and a source address for which the handlers stay inside their arrays.\<close>

definition packet_ok :: "arp_hdr \<Rightarrow> bool" where
  "packet_ok arp \<longleftrightarrow> wf_arp_hdr arp \<and> unat (hard_len arp) \<le> 6 \<and> prot_len arp = 4"

definition source_ok :: "hwa_info list \<Rightarrow> sockaddr_ll \<Rightarrow> bool" where
  "source_ok devs src \<longleftrightarrow> mac_by_ifindex devs (ll_ifindex src) \<noteq> None \<and> length (ll_addr src) = 8 \<and> unat (ll_halen src) \<le> 8"

lemma packet_okD:
  assumes "packet_ok arp"
  shows "unat (hard_len arp) \<le> 6" "unat (prot_len arp) = 4" "unat (hard_len arp) \<le> length (ARP_THA arp)"
    "4 \<le> length (ARP_TPA arp)" "4 \<le> length (ARP_SPA arp)" "wf_arp_hdr arp"
  using assms by (auto simp: packet_ok_def wf_arp_hdr_def ARP_THA_def ARP_TPA_def ARP_SPA_def)

lemma mac_by_ifindex_length: "wf_devices devs \<Longrightarrow> mac_by_ifindex devs i = Some m \<Longrightarrow> length m = 6"
  by (induction devs) (auto split: if_splits)

lemma copy_sin_addr_4:
  assumes "4 \<le> length src"
  shows "copy_sin_addr fam src 4 = Inr (mk_sockaddr_in fam (un32 src))"
proof -
  obtain bs r where src: "src = bs @ r" "length bs = 4" using split_at [OF assms] by blast
  have "\<exists>v. bs = le32 v"
  proof -
    obtain a b c d where "bs = [a, b, c, d]" using src(2) by (auto simp: length_Suc_conv numeral_eq_Suc)
    then show ?thesis using le32_un32 [of a b c d "[]"] by metis
  qed
  then obtain v where v: "bs = le32 v" by blast
  have "enc_sockaddr (mk_sockaddr_in fam 0) = (le16 fam @ [0, 0]) @ le32 0 @ replicate 8 0"
    by (simp add: enc_sockaddr_def mk_sockaddr_in_def)
  then have "memcpy (enc_sockaddr (mk_sockaddr_in fam 0)) 4 src 4 = Inr ((le16 fam @ [0, 0]) @ take 4 src @ replicate 8 0)"
    using assms by (simp only: memcpy_append length_append length_le16 length_le32 list.size)
  then show ?thesis using src v by (simp add: copy_sin_addr_def dec_sockaddr_def mk_sockaddr_in_def)
qed

text \<open>The answer a reply is turned into.\<close>

definition reply_answer :: "byte list \<Rightarrow> arp_hdr \<Rightarrow> sockaddr_ll \<Rightarrow> hwaddr" where
  "reply_answer mac arp src = (let n = unat (hard_len arp) in
     \<lparr>sll_ifindex = ll_ifindex src, sll_ifhatype = 0, sll_ifhalen = 6, sll_ifaddr = take n mac @ replicate (8 - n) 0,
      sll_hatype = htons ARPHRD_ETHER, sll_halen = hard_len arp, sll_addr = take n (ARP_THA arp) @ replicate (8 - n) 0\<rparr>)"

lemma reply_hw_ok:
  assumes "packet_ok arp" and "mac_by_ifindex devs (ll_ifindex src) = Some mac" and "length mac = 6"
  shows "reply_hw devs arp src = Inr (reply_answer mac arp src)"
  using assms packet_okD [OF assms(1)]
  by (simp add: reply_hw_def copy_from_mac_def memcpy_prefix reply_answer_def Let_def)

lemma reply_answer_wf:
  assumes "packet_ok arp" and "length mac = 6"
  shows "wf_hwaddr (reply_answer mac arp src)" and "unat (sll_halen (reply_answer mac arp src)) \<le> 8"
  using assms packet_okD [OF assms(1)] by (simp_all add: reply_answer_def wf_hwaddr_def Let_def)

lemma handle_reply_eq:
  assumes "cache_rep s as" and "wf_heap s" and "packet_ok arp" and "mac_by_ifindex devs (ll_ifindex src) = Some mac"
    and "length mac = 6"
  shows "handle_reply os fd eh arp src devs s =
    Some (Inr (0, after_reply (mk_sockaddr_in (prot_type arp) (un32 (ARP_TPA arp))) (reply_answer mac arp src) as s))"
proof -
  have "copy_sin_addr (prot_type arp) (ARP_TPA arp) (unat (prot_len arp)) =
      Inr (mk_sockaddr_in (prot_type arp) (un32 (ARP_TPA arp)))"
    using copy_sin_addr_4 packet_okD [OF assms(3)] by simp
  moreover have "reply_loop os (mk_sockaddr_in (prot_type arp) (un32 (ARP_TPA arp))) (reply_answer mac arp src) (cache s) s =
      Some (Inr ((), after_reply (mk_sockaddr_in (prot_type arp) (un32 (ARP_TPA arp))) (reply_answer mac arp src) as s))"
    using assms(1) by (intro reply_loop_runs reply_answer_wf assms wf_mk_sockaddr_in) (auto simp: cache_rep_def)
  ultimately show ?thesis using reply_hw_ok [OF assms(3,4,5)]
    by (simp add: handle_reply_def get_cache_def bnd_def)
qed

section \<open>Adding an entry\<close>

definition alloc :: "cstate \<Rightarrow> Cache \<Rightarrow> cstate" where
  "alloc s c = s\<lparr>heap := (heap s)(brk s \<mapsto> c), brk := Suc (brk s)\<rparr>"

lemma alloc_simps [simp]:
  "heap (alloc s c) = (heap s)(brk s \<mapsto> c)" "brk (alloc s c) = Suc (brk s)" "cache (alloc s c) = cache s"
  "hist (alloc s c) = hist s"
  by (simp_all add: alloc_def)

lemma calloc_Cache_ok:
  "0 \<le> os_int os (Calloc 1 72 # hist s) \<Longrightarrow>
   calloc_Cache os s = Some (Inr (Some (brk s), alloc (log_call (Calloc 1 72) s) zero_Cache))"
  by (simp add: calloc_Cache_def sys_def alloc_def bnd_def)

lemma modify_alloc [simp]: "modify (Some (brk s)) f (alloc s c) = Some (Inr ((), alloc s (f c)))"
  by (simp add: modify_def alloc_def)

lemma brk_fresh:
  assumes "cache_rep s as"
  shows "brk s \<notin> set as" and "heap s (brk s) = None" and "cache_rep (alloc s c) as"
proof -
  show n: "heap s (brk s) = None" using assms unfolding cache_rep_def by blast
  then show "brk s \<notin> set as" using cache_rep_entry [OF assms, of "brk s"] by auto
  then show "cache_rep (alloc s c) as" using assms by (auto simp: cache_rep_def less_Suc_eq)
qed

lemma table_ok_Cons:
  assumes "table_ok e as" and "a \<notin> set as" and "entry_ok (e a)" and "\<forall>b \<in> set as. ipaddress (e b) \<noteq> ipaddress (e a)"
    and "state (e a) \<noteq> STATE_COMPLETE \<longrightarrow> (\<forall>b \<in> set as. state (e b) = STATE_COMPLETE)"
  shows "table_ok e (a # as)"
  using assms unfolding table_ok_def by (simp, metis)

lemma arp_inv_add:
  assumes inv: "arp_inv s as" and c: "entry_ok c" "\<forall>b \<in> set as. ipaddress (entry_of s b) \<noteq> ipaddress c"
    and st: "state c \<noteq> STATE_COMPLETE \<longrightarrow> \<not> busy s as"
  shows "\<exists>t. addToCache Addr_of_cache (Some (brk s)) (alloc s c) = Some (Inr (True, t)) \<and> arp_inv t (brk s # as) \<and>
    entry_of t (brk s) = strip c \<and> (\<forall>b \<in> set as. entry_of t b = entry_of s b) \<and> hist t = hist s"
proof -
  let ?a = "brk s" and ?s = "alloc s c"
  note rep = arp_invD(1) [OF inv]
  note fresh = brk_fresh [OF rep]
  let ?t = "?s\<lparr>heap := linked_front ?s ?a, cache := Some ?a\<rparr>"
  have new: "heap ?s ?a \<noteq> None" by simp
  note t = cache_rep_linked_front [OF fresh(3) new fresh(1)]
  have e_new: "entry_of ?t ?a = strip c" using entry_linked_front [OF fresh(3) new new] by (simp add: entry_of_def)
  have e: "entry_of ?t b = entry_of s b" if b: "b \<in> set as" for b
  proof -
    have "b \<noteq> ?a" using fresh(1) b by auto
    moreover have "heap ?s b \<noteq> None" using arp_inv_heap [OF inv b] by auto
    ultimately show ?thesis using entry_linked_front [OF fresh(3) new, of b] by (simp add: entry_of_def)
  qed
  have "entry_ok (strip c)" using c(1) by (simp add: entry_ok_def)
  moreover have "\<forall>b \<in> set as. state (entry_of s b) = STATE_COMPLETE" if "\<not> busy s as"
    using that by (auto simp: busy_def)
  ultimately have "table_ok (entry_of ?t) (?a # as)"
    using table_ok_subset [OF arp_invD(3) [OF inv] order_refl, of "entry_of ?t"] e e_new fresh(1) c(2) st
    by (intro table_ok_Cons) auto
  moreover have "b \<in> set (?a # as)" if "heap ?t b \<noteq> None" for b
  proof (cases "b = ?a \<or> cache s = Some b")
    case True
    then show ?thesis using cache_rep_head [OF rep] by (auto split: list.splits)
  next
    case False
    then have "heap s b \<noteq> None" using that linked_front_notin [of b ?a ?s] by simp
    then show ?thesis using arp_invD(2) [OF inv] by simp
  qed
  ultimately have "arp_inv ?t (?a # as)" using t by (simp add: arp_inv_def)
  moreover have "addToCache Addr_of_cache (Some ?a) ?s = Some (Inr (True, ?t))"
    using addToCache_eq [OF fresh(3) new] .
  moreover have "hist ?t = hist s" by simp
  ultimately show ?thesis using e e_new by blast
qed

text \<open>A new connection while no client is served.\<close>

lemma accept_client_runs:
  assumes inv: "arp_inv s as" and idle: "\<not> busy s as"
    and sfd: "sfd = os_int os (Accept ud # hist s)" "0 < sfd" "sfd < FD_SETSIZE"
    and mem: "0 \<le> os_int os (Calloc 1 72 # Accept ud # hist s)"
  shows "\<exists>a t. accept_client os ud s = Some (Inr ((), t)) \<and> arp_inv t (a # as) \<and>
    entry_of t a = zero_Cache\<lparr>domain_socket := sfd\<rparr> \<and> (\<forall>b \<in> set as. entry_of t b = entry_of s b) \<and>
    hist t = Calloc 1 72 # Accept ud # hist s"
proof -
  let ?s = "log_call (Accept ud) s"
  have none: "\<forall>b \<in> set as. domain_socket (the (heap s b)) \<noteq> sfd"
    using idle entry_okD [OF inv] sfd(2) by (force simp: busy_def entry_ok_def entry_simps)
  have look: "getCacheBySocket (cache ?s) sfd ?s = Some (Inr (None, ?s))"
    using getCacheBySocket_find [of ?s as sfd] arp_invD(1) [OF inv] none by (simp add: find_None_iff)
  let ?c = "zero_Cache\<lparr>domain_socket := sfd, state := STATE_CONNECTION\<rparr>"
  let ?s1 = "log_call (Calloc 1 72) ?s"
  have "entry_ok ?c" using sfd by (simp add: entry_ok_def zero_Cache_def wf_Cache_def fd_ok_def wf_hwaddr_def zero_hwaddr_def)
  moreover have "\<forall>b \<in> set as. ipaddress (entry_of ?s1 b) \<noteq> ipaddress ?c"
    using idle entry_okD [OF inv] by (force simp: busy_def entry_ok_def zero_Cache_def zero_sockaddr_def)
  ultimately obtain t where t: "addToCache Addr_of_cache (Some (brk s)) (alloc ?s1 ?c) = Some (Inr (True, t))"
      "arp_inv t (brk s # as)" "entry_of t (brk s) = strip ?c" "\<forall>b \<in> set as. entry_of t b = entry_of s b" "hist t = hist ?s1"
    using arp_inv_add [of ?s1 as ?c] inv idle by auto
  have "modify (Some (brk s)) f (alloc ?s1 d) = Some (Inr ((), alloc ?s1 (f d)))" for f d
    using modify_alloc [of ?s1 f d] by simp
  then have "accept_client os ud s = Some (Inr ((), t))"
    using look sfd(1) calloc_Cache_ok [of os ?s] mem t(1)
    by (simp add: accept_client_def sys_def get_cache_def bnd_def del: modify_Some)
  moreover have "strip ?c = zero_Cache\<lparr>domain_socket := sfd\<rparr>" by (simp add: strip_def zero_Cache_def)
  ultimately show ?thesis using t by (intro exI [of _ "brk s"] exI [of _ t]) simp
qed

section \<open>A request from the network\<close>

lemma copy_in_addr_4: "4 \<le> length src \<Longrightarrow> copy_in_addr src 4 = Inr (Some (un32 src))"
proof -
  assume "4 \<le> length src"
  then obtain bs r where src: "src = bs @ r" "length bs = 4" using split_at by blast
  then obtain a b c d where "bs = [a, b, c, d]" by (auto simp: length_Suc_conv numeral_eq_Suc)
  then show ?thesis using src by (simp add: copy_in_addr_def memcpy_prefix numeral_eq_Suc)
qed

text \<open>The reply to a request for the address of interface \<open>this\<close>, and the frame it goes out in.\<close>

definition reply_packet :: "arp_hdr \<Rightarrow> ethhdr \<Rightarrow> hwa_info \<Rightarrow> byte list" where
  "reply_packet arp eh this = (let n = unat (hard_len arp) in
     enc_arp_fields (htons ARP_ID) (htons (hard_type arp)) (htons (prot_type arp)) (hard_len arp) 4 (htons ARPOP_REPLY) @
     take n (h_source eh) @ le32 (sin_addr (ip_addr this)) @ take n (if_haddr this) @ take 4 (ARP_TPA arp))"

definition reply_call :: "int \<Rightarrow> arp_hdr \<Rightarrow> ethhdr \<Rightarrow> hwa_info \<Rightarrow> byte list \<Rightarrow> u32 \<Rightarrow> call" where
  "reply_call fd arp eh this mac ifi =
     Sendto_ll fd (the_frame ETH_P_ARP_SH (h_source eh) mac (reply_packet arp eh this)) (the_dest ETH_P_ARP_SH (h_source eh) ifi)"

lemma dec_arp_hdr_fields:
  "length d = 48 \<Longrightarrow> dec_arp_hdr (enc_arp_fields i ht pt hl pl opc @ d) =
    \<lparr>arp_id = i, hard_type = ht, prot_type = pt, hard_len = hl, prot_len = pl, arp_op = opc, arp_data = d\<rparr>"
  using arp_wire.dec_enc [of "\<lparr>arp_id = i, hard_type = ht, prot_type = pt, hard_len = hl, prot_len = pl, arp_op = opc, arp_data = d\<rparr>"]
  by (simp add: wf_arp_hdr_def enc_arp_hdr_def)

definition reverse_entry :: "byte list \<Rightarrow> sockaddr_ll \<Rightarrow> hwaddr" where
  "reverse_entry mac src = (let n = unat (ll_halen src) in
     \<lparr>sll_ifindex = ll_ifindex src, sll_ifhatype = ARPHRD_ETHER, sll_ifhalen = 6, sll_ifaddr = mac @ [0, 0],
      sll_hatype = ll_hatype src, sll_halen = ll_halen src, sll_addr = take n (ll_addr src) @ replicate (8 - n) 0\<rparr>)"

lemma reverse_hw_ok:
  assumes "source_ok devs src" and "mac_by_ifindex devs (ll_ifindex src) = Some mac" and "length mac = 6"
  shows "reverse_hw devs src = Inr (reverse_entry mac src)"
  using assms by (simp add: reverse_hw_def copy_from_mac_def source_ok_def memcpy_prefix reverse_entry_def Let_def numeral_2_eq_2)

lemma reverse_entry_wf:
  assumes "source_ok devs src" and "length mac = 6"
  shows "wf_hwaddr (reverse_entry mac src)" and "unat (sll_halen (reverse_entry mac src)) \<le> 8"
  using assms by (simp_all add: reverse_entry_def wf_hwaddr_def source_ok_def Let_def)

text \<open>The three calls that answer the request.\<close>

lemma handle_req_sends:
  assumes pk: "packet_ok arp" and mac: "mac_by_ifindex devs (ll_ifindex src) = Some mac" "length mac = 6"
    and eh: "length (h_source eh) = 6" and dv: "length (if_haddr this) = 6"
  shows "\<exists>x y hdr. build_arp (Some (replicate 58 0)) 58 (hard_type arp) (prot_type arp) (hard_len arp) (prot_len arp)
        ARPOP_REPLY (Some (h_source eh)) (Some (le32 (sin_addr (ip_addr this)))) (Some (if_haddr this)) (Some (ARP_TPA arp)) =
        Inr (int (18 + 2 * unat (hard_len arp)), hdr) \<and>
      PRINT_ARP (dec_arp_hdr hdr) s = Some (Inr ((), logs [Out x, Out y] s)) \<and>
      (\<forall>s :: cstate. \<exists>r. send_frame os fd hdr (int (18 + 2 * unat (hard_len arp))) (Some (h_source eh)) (mac_by_ifindex devs (ll_ifindex src))
        (ll_ifindex src) s = Some (Inr (r, log_call (reply_call fd arp eh this mac (ll_ifindex src)) s)))"
proof -
  let ?n = "18 + 2 * unat (hard_len arp)"
  let ?d = "take (unat (hard_len arp)) (h_source eh) @ le32 (sin_addr (ip_addr this)) @ take (unat (hard_len arp)) (if_haddr this) @
    take 4 (ARP_TPA arp) @ replicate (58 - ?n) 0"
  let ?hdr = "enc_arp_fields (htons ARP_ID) (htons (hard_type arp)) (htons (prot_type arp)) (hard_len arp) 4 (htons ARPOP_REPLY) @ ?d"
  note p = packet_okD [OF pk]
  have pl: "prot_len arp = 4" using pk by (simp add: packet_ok_def)
  have "int (unat (hard_len arp)) \<le> 6" using p(1) by linarith
  then have "uint (hard_len arp) \<le> 20" by simp
  then have b: "build_arp (Some (replicate 58 0)) 58 (hard_type arp) (prot_type arp) (hard_len arp) (prot_len arp) ARPOP_REPLY
      (Some (h_source eh)) (Some (le32 (sin_addr (ip_addr this)))) (Some (if_haddr this)) (Some (ARP_TPA arp)) = Inr (int ?n, ?hdr)"
    using build_arp_ok [of ?n "hard_len arp" "prot_len arp" "replicate 58 0" 58] p pl eh dv by (simp add: add.commute)
  have d: "length ?d = 48" using p eh dv by simp
  have "\<exists>x y. PRINT_ARP (dec_arp_hdr ?hdr) s = Some (Inr ((), log_call (Out x) (log_call (Out y) s)))"
    using dec_arp_hdr_fields [OF d] d p by (intro PRINT_ARP_runs) (simp_all add: wf_arp_hdr_def ARP_DATALEN_def)
  then obtain x y where xy: "PRINT_ARP (dec_arp_hdr ?hdr) s = Some (Inr ((), logs [Out x, Out y] s))"
    by (auto simp: log_call_logs)
  have "take ?n ?hdr = reply_packet arp eh this" using p eh dv by (simp add: reply_packet_def Let_def)
  moreover have "?n \<le> length ?hdr" using d p by simp
  ultimately have "\<exists>r. send_frame os fd ?hdr (int ?n) (Some (h_source eh)) (mac_by_ifindex devs (ll_ifindex src)) (ll_ifindex src) u =
      Some (Inr (r, log_call (reply_call fd arp eh this mac (ll_ifindex src)) u))" for u
    using arp_frames.send_ok [of ?n ?hdr "h_source eh" mac "reply_call fd arp eh this mac (ll_ifindex src)" fd "ll_ifindex src" os u]
      mac eh p by (auto simp: reply_call_def)
  with b xy show ?thesis by blast
qed

lemma handle_req_other:
  assumes "packet_ok arp" and "isDestination devs (Some (un32 (ARP_TPA arp))) = None"
  shows "handle_req os fd eh arp src devs s = Some (Inr (1, s))"
  using assms packet_okD [OF assms(1)] copy_in_addr_4 by (simp add: handle_req_def find_target_def)

lemma add_reverse_entry_runs:
  assumes inv: "arp_inv s as" and src: "source_ok devs src" "mac_by_ifindex devs (ll_ifindex src) = Some mac" "length mac = 6"
    and ip: "sa_family ip = AF_INET" "wf_sockaddr ip" and mem: "0 \<le> os_int os (Calloc 1 72 # hist s)"
  shows "\<exists>t bs. add_reverse_entry os ip src devs s = Some (Inr (1, t)) \<and>
      arp_inv t bs \<and> (\<forall>b \<in> set as. b \<in> set bs \<and> entry_of t b = entry_of s b) \<and>
      (\<exists>b \<in> set bs. ipaddress (entry_of t b) = ip) \<and> (hist t = hist s \<or> hist t = Calloc 1 72 # hist s) \<and>
      (\<forall>b \<in> set bs. b \<notin> set as \<longrightarrow> entry_of t b = zero_Cache\<lparr>ipaddress := ip, state := STATE_COMPLETE, hw := reverse_entry mac src\<rparr>)"
proof -
  have look: "getCacheByIpAddr (cache s) (Some ip) s = Some (Inr (find (\<lambda>a. ipaddress (the (heap s a)) = ip) as, s))"
    using getCacheByIpAddr_find [OF arp_invD(1) [OF inv] arp_inv_wf [OF inv] ip(2)] .
  show ?thesis
  proof (cases "find (\<lambda>a. ipaddress (the (heap s a)) = ip) as")
    case (Some b)
    then have "b \<in> set as" "ipaddress (entry_of s b) = ip" by (auto simp: find_Some_iff entry_simps)
    moreover have "add_reverse_entry os ip src devs s = Some (Inr (1, s))"
      using look Some by (simp add: add_reverse_entry_def get_cache_def bnd_def)
    ultimately show ?thesis using inv by (intro exI [of _ s] exI [of _ as]) auto
  next
    case None
    let ?c = "zero_Cache\<lparr>hw := reverse_entry mac src, ipaddress := ip, state := STATE_COMPLETE\<rparr>"
    let ?s1 = "log_call (Calloc 1 72) s"
    have "entry_ok ?c" using ip reverse_entry_wf [OF src(1,3)] by (simp add: entry_ok_def wf_Cache_def zero_Cache_def)
    moreover have "\<forall>b \<in> set as. ipaddress (entry_of ?s1 b) \<noteq> ipaddress ?c"
      using None by (simp add: find_None_iff entry_simps)
    ultimately obtain t where t: "addToCache Addr_of_cache (Some (brk s)) (alloc ?s1 ?c) = Some (Inr (True, t))"
        "arp_inv t (brk s # as)" "entry_of t (brk s) = strip ?c" "\<forall>b \<in> set as. entry_of t b = entry_of s b" "hist t = hist ?s1"
      using arp_inv_add [of ?s1 as ?c] inv by auto
    have "modify (Some (brk s)) f (alloc ?s1 d) = Some (Inr ((), alloc ?s1 (f d)))" for f d
      using modify_alloc [of ?s1 f d] by simp
    moreover have "strip ?c = zero_Cache\<lparr>ipaddress := ip, state := STATE_COMPLETE, hw := reverse_entry mac src\<rparr>"
      by (simp add: strip_def zero_Cache_def)
    ultimately show ?thesis using look None calloc_Cache_ok [OF mem] reverse_hw_ok [OF src] t
      by (intro exI [of _ t] exI [of _ "brk s # as"]) (simp add: add_reverse_entry_def get_cache_def bnd_def del: modify_Some)
  qed
qed

lemma isDestination_Some: "isDestination devs (Some ip) = Some d \<Longrightarrow> d \<in> set devs \<and> sin_addr (ip_addr d) = ip"
  by (induction devs) (auto split: if_splits)

lemma handle_req_runs:
  assumes inv: "arp_inv s as" and dev: "wf_devices devs" and pk: "packet_ok arp" and src: "source_ok devs src"
    and mac: "mac_by_ifindex devs (ll_ifindex src) = Some mac" and eh: "length (h_source eh) = 6"
    and pt: "prot_type arp = PF_INET" and dst: "isDestination devs (Some (un32 (ARP_TPA arp))) = Some this"
    and mem: "\<And>h. 0 \<le> os_int os (Calloc 1 72 # h)"
  shows "\<exists>t bs x y cs. handle_req os fd eh arp src devs s = Some (Inr (1, t)) \<and> arp_inv t bs \<and>
    hist t = cs @ reply_call fd arp eh this mac (ll_ifindex src) # Out x # Out y # hist s \<and> set cs \<subseteq> {Calloc 1 72} \<and>
    (\<forall>b \<in> set as. b \<in> set bs \<and> entry_of t b = entry_of s b) \<and>
    (\<exists>b \<in> set bs. ipaddress (entry_of t b) = mk_sockaddr_in AF_INET (un32 (ARP_SPA arp))) \<and>
    (\<forall>b \<in> set bs. b \<notin> set as \<longrightarrow> entry_of t b = zero_Cache\<lparr>ipaddress := mk_sockaddr_in AF_INET (un32 (ARP_SPA arp)),
      state := STATE_COMPLETE, hw := reverse_entry mac src\<rparr>)"
proof -
  have m6: "length mac = 6" using mac_by_ifindex_length [OF dev mac] .
  have t6: "length (if_haddr this) = 6" using isDestination_Some [OF dst] dev by (auto simp: wf_devices_def)
  note p = packet_okD [OF pk]
  obtain x y hdr where send: "build_arp (Some (replicate 58 0)) 58 (hard_type arp) (prot_type arp) (hard_len arp) (prot_len arp)
        ARPOP_REPLY (Some (h_source eh)) (Some (le32 (sin_addr (ip_addr this)))) (Some (if_haddr this)) (Some (ARP_TPA arp)) =
        Inr (int (18 + 2 * unat (hard_len arp)), hdr)"
      "PRINT_ARP (dec_arp_hdr hdr) s = Some (Inr ((), logs [Out x, Out y] s))"
      "\<And>s :: cstate. \<exists>r. send_frame os fd hdr (int (18 + 2 * unat (hard_len arp))) (Some (h_source eh)) (mac_by_ifindex devs (ll_ifindex src))
        (ll_ifindex src) s = Some (Inr (r, log_call (reply_call fd arp eh this mac (ll_ifindex src)) s))"
    using handle_req_sends [OF pk mac m6 eh t6, of s os fd] by blast
  let ?s1 = "log_call (reply_call fd arp eh this mac (ll_ifindex src)) (logs [Out x, Out y] s)"
  obtain r where r: "send_frame os fd hdr (int (18 + 2 * unat (hard_len arp))) (Some (h_source eh)) (mac_by_ifindex devs (ll_ifindex src))
        (ll_ifindex src) (logs [Out x, Out y] s) = Some (Inr (r, ?s1))" using send(3) by blast
  have inv1: "arp_inv ?s1 as" using inv by simp
  note learn = add_reverse_entry_runs [OF inv1 src mac m6 _ wf_mk_sockaddr_in mem, of AF_INET "un32 (ARP_SPA arp)"]
  have "handle_req os fd eh arp src devs s =
      add_reverse_entry os (mk_sockaddr_in AF_INET (un32 (ARP_SPA arp))) src devs ?s1"
    using send(1,2) r copy_in_addr_4 copy_sin_addr_4 p pt dst by (simp add: handle_req_def find_target_def bnd_def)
  moreover obtain t bs where t: "add_reverse_entry os (mk_sockaddr_in AF_INET (un32 (ARP_SPA arp))) src devs ?s1 = Some (Inr (1, t))"
      "arp_inv t bs" "\<forall>b \<in> set as. b \<in> set bs \<and> entry_of t b = entry_of ?s1 b"
      "\<exists>b \<in> set bs. ipaddress (entry_of t b) = mk_sockaddr_in AF_INET (un32 (ARP_SPA arp))"
      "hist t = hist ?s1 \<or> hist t = Calloc 1 72 # hist ?s1"
      "\<forall>b \<in> set bs. b \<notin> set as \<longrightarrow> entry_of t b = zero_Cache\<lparr>ipaddress := mk_sockaddr_in AF_INET (un32 (ARP_SPA arp)),
        state := STATE_COMPLETE, hw := reverse_entry mac src\<rparr>"
    using learn by auto
  moreover have "\<exists>cs. hist t = cs @ reply_call fd arp eh this mac (ll_ifindex src) # Out x # Out y # hist s \<and> set cs \<subseteq> {Calloc 1 72}"
    using t(5) by (auto intro: exI [of _ "[]"] exI [of _ "[Calloc 1 72]"])
  ultimately show ?thesis by (intro exI [of _ t] exI [of _ bs] exI [of _ x] exI [of _ y]) simp
qed

section \<open>A turn of the loop\<close>

text \<open>
  What may arrive on the packet socket: an error, a frame too short to hold an ARP header, or a frame
  that fits into \<open>struct arp_hdr\<close>, whose addresses lie inside it and which, if it passes \<open>valid_arp\<close>, has
  the address lengths of Ethernet and IPv4 and came in on one of the host's interfaces.
\<close>

definition frame_ok :: "hwa_info list \<Rightarrow> byte list option \<Rightarrow> sockaddr_ll \<Rightarrow> bool" where
  "frame_ok devs got src = (case got of None \<Rightarrow> True | Some frame \<Rightarrow>
     length frame \<le> 24 \<or>
     length frame \<le> 72 \<and> ARP_DATALEN (arp_of_frame frame) \<le> 48 \<and>
     (valid_arp (arp_of_frame frame) \<longrightarrow> packet_ok (arp_of_frame frame) \<and> source_ok devs src))"

lemma valid_arp_prot_type: "valid_arp arp \<Longrightarrow> prot_type arp = PF_INET"
  by (auto simp: valid_arp_def Let_def split: if_splits)

lemma h_source_length: "14 \<le> length frame \<Longrightarrow> length (h_source (dec_ethhdr frame)) = 6"
  by (simp add: dec_ethhdr_def)

lemma handle_req_keeps:
  assumes inv: "arp_inv s as" and dev: "wf_devices devs" and pk: "packet_ok arp" and src: "source_ok devs src"
    and eh: "length (h_source eh) = 6" and pt: "prot_type arp = PF_INET" and mem: "\<And>h. 0 \<le> os_int os (Calloc 1 72 # h)"
  shows "runs_to (handle_req os fd eh arp src devs) s (\<lambda>_. keeps_table s as)"
proof (cases "isDestination devs (Some (un32 (ARP_TPA arp)))")
  case None
  from handle_req_other [OF pk this] show ?thesis using inv by (auto simp: runs_to_def keeps_table_def)
next
  case (Some d)
  obtain mac where mac: "mac_by_ifindex devs (ll_ifindex src) = Some mac" using src by (auto simp: source_ok_def)
  obtain t bs where t: "handle_req os fd eh arp src devs s = Some (Inr (1, t))" "arp_inv t bs"
      "\<forall>b \<in> set as. b \<in> set bs \<and> entry_of t b = entry_of s b"
      "\<forall>b \<in> set bs. b \<notin> set as \<longrightarrow> entry_of t b = zero_Cache\<lparr>ipaddress := mk_sockaddr_in AF_INET (un32 (ARP_SPA arp)),
        state := STATE_COMPLETE, hw := reverse_entry mac src\<rparr>"
    using handle_req_runs [OF inv dev pk src mac eh pt Some mem, of fd] by blast
  have "busy s as" if bt: "busy t bs"
  proof -
    obtain b where b: "b \<in> set bs" "state (entry_of t b) \<noteq> STATE_COMPLETE" using bt unfolding busy_def by blast
    then have "b \<in> set as" using t(4) by auto
    then show ?thesis using b(2) t(3) by (auto simp: busy_def)
  qed
  then show ?thesis using t by (auto simp: runs_to_def keeps_table_def)
qed

lemma handle_reply_keeps:
  assumes inv: "arp_inv s as" and dev: "wf_devices devs" and pk: "packet_ok arp" and src: "source_ok devs src"
  shows "runs_to (handle_reply os fd eh arp src devs) s (\<lambda>_. keeps_table s as)"
proof -
  obtain mac where mac: "mac_by_ifindex devs (ll_ifindex src) = Some mac" using src by (auto simp: source_ok_def)
  have m6: "length mac = 6" using mac_by_ifindex_length [OF dev mac] .
  let ?t = "after_reply (mk_sockaddr_in (prot_type arp) (un32 (ARP_TPA arp))) (reply_answer mac arp src) as s"
  note t = arp_inv_after_reply [OF inv reply_answer_wf [OF pk m6]]
  have "entry_of ?t a = entry_of s a" if "a \<in> set as" "state (entry_of s a) = STATE_COMPLETE" for a
    using entry_of_after_reply [OF that(1)] arp_inv_heap [OF inv that(1)] that(2) by (auto simp: answered_def awaits_def)
  then show ?thesis using handle_reply_eq [OF arp_invD(1) [OF inv] arp_inv_wf [OF inv] pk mac m6] t
    by (auto simp: runs_to_def keeps_table_def intro!: exI [of _ as])
qed

lemma keeps_table_logs: "keeps_table (logs cs s) as = keeps_table s as"
  by (simp add: keeps_table_def fun_eq_iff)

lemma receive_packet_runs:
  assumes inv: "arp_inv s as" and dev: "wf_devices devs" and mem: "\<And>h. 0 \<le> os_int os (Calloc 1 72 # h)"
    and ok: "frame_ok devs (os_recv os (Recvfrom fd ETH_FRAME_LEN # hist s)) (os_from_ll os (Recvfrom fd ETH_FRAME_LEN # hist s))"
  shows "runs_to (receive_packet os fd devs) s (\<lambda>_. keeps_table s as)"
proof (cases "os_recv os (Recvfrom fd ETH_FRAME_LEN # hist s)")
  case None
  then show ?thesis using recv_frame_error [OF None] inv
    by (auto simp: receive_packet_def runs_to_def bnd_def keeps_table_def)
next
  case (Some frame)
  let ?src = "os_from_ll os (Recvfrom fd ETH_FRAME_LEN # hist s)" and ?arp = "arp_of_frame frame"
  show ?thesis
  proof (cases "length frame \<le> 24")
    case True
    then show ?thesis using recv_frame_short [OF Some True] inv
      by (auto simp: receive_packet_def runs_to_def bnd_def keeps_table_def zero_arp_hdr_def ARP_DATALEN_def valid_arp_def Let_def)
  next
    case False
    then have f: "24 < length frame" "length frame \<le> 72" "ARP_DATALEN ?arp \<le> 48"
        "valid_arp ?arp \<Longrightarrow> packet_ok ?arp" "valid_arp ?arp \<Longrightarrow> source_ok devs ?src"
      using ok Some by (auto simp: frame_ok_def)
    obtain cs where recv: "recv_frame os fd zero_ethhdr zero_arp_hdr s =
        Some (Inr ((int (length frame), dec_ethhdr frame, ?arp, ?src), logs cs s))"
      using recv_frame_ok [OF Some f(1-3), of zero_ethhdr] by (auto simp: log_call_logs)
    have inv1: "arp_inv (logs cs s) as" using inv by simp
    have "valid_arp ?arp \<Longrightarrow> runs_to (handle_req os fd (dec_ethhdr frame) ?arp ?src devs) (logs cs s) (\<lambda>_. keeps_table s as)"
      using handle_req_keeps [OF inv1 dev f(4,5) _ valid_arp_prot_type mem] f(1) h_source_length [of frame]
      by (simp add: keeps_table_logs)
    moreover have "valid_arp ?arp \<Longrightarrow> runs_to (handle_reply os fd (dec_ethhdr frame) ?arp ?src devs) (logs cs s) (\<lambda>_. keeps_table s as)"
      using handle_reply_keeps [OF inv1 dev f(4,5)] by (simp add: keeps_table_logs)
    moreover have "keeps_table s as (logs cs s)" using inv by (auto simp: keeps_table_def)
    ultimately show ?thesis
      unfolding receive_packet_def runs_to_bnd runs_to_eq [of "recv_frame os fd zero_ethhdr zero_arp_hdr", OF recv]
      by (simp add: runs_to_ret)
  qed
qed

text \<open>A client is being served.\<close>

definition waiting :: "cstate \<Rightarrow> bool" where
  "waiting s \<longleftrightarrow> (\<exists>a c. heap s a = Some c \<and> state c \<noteq> STATE_COMPLETE)"

lemma waiting_busy: "arp_inv s as \<Longrightarrow> waiting s \<longleftrightarrow> busy s as"
  unfolding waiting_def busy_def
  by (metis arp_invD(2) arp_inv_heap entry_simps(3) option.distinct(1) option.sel)

text \<open>
  The environment of the daemon: two descriptors that fit into an \<open>fd_set\<close>, interfaces with six-byte
  addresses, \<open>accept\<close> and \<open>calloc\<close> that succeed (their results are not checked), and the frames above.
\<close>

definition env_ok :: "os \<Rightarrow> int \<Rightarrow> int \<Rightarrow> hwa_info list \<Rightarrow> bool" where
  "env_ok os ud pf devs \<longleftrightarrow> fd_ok ud \<and> fd_ok pf \<and> wf_devices devs \<and>
     (\<forall>h. 0 \<le> os_int os (Calloc 1 72 # h)) \<and>
     (\<forall>h. 0 < os_int os (Accept ud # h) \<and> os_int os (Accept ud # h) < FD_SETSIZE) \<and>
     (\<forall>h. frame_ok devs (os_recv os (Recvfrom pf ETH_FRAME_LEN # h)) (os_from_ll os (Recvfrom pf ETH_FRAME_LEN # h)))"

text \<open>No second client connects while one is served.\<close>

definition serial :: "os \<Rightarrow> int \<Rightarrow> cstate \<Rightarrow> bool" where
  "serial os ud s \<longleftrightarrow> (waiting s \<longrightarrow> (\<forall>fds. \<not> os_ready os (Select fds None # hist s) ud))"

definition learned_kept :: "cstate \<Rightarrow> addr list \<Rightarrow> cstate \<Rightarrow> addr list \<Rightarrow> bool" where
  "learned_kept s as t bs \<longleftrightarrow>
     (\<forall>a \<in> set as. state (entry_of s a) = STATE_COMPLETE \<longrightarrow> a \<in> set bs \<and> entry_of t a = entry_of s a)"

lemma learned_kept_trans:
  "learned_kept s as t bs \<Longrightarrow> learned_kept t bs u cs \<Longrightarrow> learned_kept s as u cs"
  unfolding learned_kept_def by (metis (no_types))

lemma learned_kept_logs [simp]: "learned_kept (logs cs s) as t bs = learned_kept s as t bs"
  by (simp add: learned_kept_def)

lemma keeps_tableE:
  assumes "keeps_table s as t"
  obtains bs where "arp_inv t bs" "busy t bs \<Longrightarrow> busy s as" "learned_kept s as t bs"
  using assms unfolding keeps_table_def learned_kept_def by blast

lemma arp_turn_runs:
  assumes inv: "arp_inv s as" and env: "env_ok os ud pf devs" and serial: "rset ud \<Longrightarrow> \<not> busy s as"
  shows "runs_to (bnd (scan_clients os pf devs rset (cache s)) (\<lambda>_.
       bnd (if rset ud then accept_client os ud else ret ()) (\<lambda>_.
       bnd (if rset pf then receive_packet os pf devs else ret True) (\<lambda>goes_on.
       ret (if goes_on then None else Some EXIT_FAILURE))))) s
     (\<lambda>_ t. \<exists>bs. arp_inv t bs \<and> learned_kept s as t bs)"
proof -
  note e = env [unfolded env_ok_def]
  have dev: "wf_devices devs" using e by simp
  obtain t where t: "scan_clients os pf devs rset (cache s) s = Some (Inr ((), t))" "keeps_table s as t"
    using scan_clients_runs [OF inv dev, of os pf rset] by (auto simp: runs_to_def)
  then obtain bs where bs: "arp_inv t bs" "busy t bs \<Longrightarrow> busy s as" "learned_kept s as t bs" by (auto elim: keeps_tableE)
  have "\<exists>u cs. (if rset ud then accept_client os ud else ret ()) t = Some (Inr ((), u)) \<and> arp_inv u cs \<and> learned_kept t bs u cs"
  proof (cases "rset ud")
    case True
    then have "\<not> busy t bs" using bs(2) serial by blast
    from accept_client_runs [OF bs(1) this refl, of os ud] e True show ?thesis by (fastforce simp: learned_kept_def)
  next
    case False
    then show ?thesis using bs(1) by (auto simp: learned_kept_def)
  qed
  then obtain u cs where u: "(if rset ud then accept_client os ud else ret ()) t = Some (Inr ((), u))" "arp_inv u cs"
      "learned_kept t bs u cs" by blast
  have "runs_to (if rset pf then receive_packet os pf devs else ret True) u (\<lambda>_ t. \<exists>ds. arp_inv t ds \<and> learned_kept u cs t ds)"
  proof (cases "rset pf")
    case True
    have "runs_to (receive_packet os pf devs) u (\<lambda>_. keeps_table u cs)"
      using e by (intro receive_packet_runs u dev) auto
    then show ?thesis using True by (auto elim!: runs_to_mono keeps_tableE)
  next
    case False
    then show ?thesis using u(2) by (auto simp: learned_kept_def)
  qed
  then have "runs_to (if rset pf then receive_packet os pf devs else ret True) u (\<lambda>_ t. \<exists>ds. arp_inv t ds \<and> learned_kept s as t ds)"
    by (rule runs_to_mono) (use learned_kept_trans [OF learned_kept_trans [OF bs(3) u(3)]] in blast)
  then show ?thesis unfolding runs_to_bnd runs_to_eq [of "scan_clients os pf devs rset (cache s)", OF t(1)]
      runs_to_eq [of "if rset ud then accept_client os ud else ret ()", OF u(1)] runs_to_ret .
qed

lemma arp_iter_runs:
  assumes inv: "arp_inv s as" and env: "env_ok os ud pf devs" and "serial os ud s"
  shows "runs_to (arp_iter os ud pf devs) s (\<lambda>_ t. \<exists>bs. arp_inv t bs \<and> learned_kept s as t bs)"
proof -
  note e = env [unfolded env_ok_def]
  obtain m where m: "maxfd pf ud (cache s) s = Some (Inr (m, s))" using maxfd_ok [OF arp_invD(1) [OF inv]] by blast
  have fds: "sbnd (fd_set_add ud []) (fd_set_add pf) = Inr [pf, ud]" using e by (simp add: fd_set_add_def)
  obtain fds where loop: "fdset_loop [pf, ud] (cache s) s = Some (Inr (fds, s))"
    using fdset_loop_dls [of s "cache s" as "[pf, ud]"] arp_invD(1) [OF inv] entry_okD [OF inv]
    by (auto simp: cache_rep_def entry_ok_def)
  let ?fds = "filter (\<lambda>fd. fd < m + 1) fds"
  let ?c = "Select ?fds None"
  let ?rset = "\<lambda>fd. fd \<in> set ?fds \<and> os_ready os (?c # hist s) fd"
  have "runs_to (bnd (scan_clients os pf devs ?rset (cache (log_call ?c s))) (\<lambda>_.
       bnd (if ?rset ud then accept_client os ud else ret ()) (\<lambda>_.
       bnd (if ?rset pf then receive_packet os pf devs else ret True) (\<lambda>goes_on.
       ret (if goes_on then None else Some EXIT_FAILURE))))) (log_call ?c s)
     (\<lambda>_ t. \<exists>bs. arp_inv t bs \<and> learned_kept (log_call ?c s) as t bs)"
    using assms(3) waiting_busy [OF inv] inv by (intro arp_turn_runs env) (auto simp: serial_def)
  moreover have "arp_inv (log_call ?c s) as \<and> learned_kept s as (log_call ?c s) as"
    using inv by (simp add: learned_kept_def)
  moreover have "arp_iter os ud pf devs s = (if os_int os (?c # hist s) < 0 then ret (Some EXIT_FAILURE)
     else bnd (scan_clients os pf devs ?rset (cache (log_call ?c s))) (\<lambda>_.
       bnd (if ?rset ud then accept_client os ud else ret ()) (\<lambda>_.
       bnd (if ?rset pf then receive_packet os pf devs else ret True) (\<lambda>goes_on.
       ret (if goes_on then None else Some EXIT_FAILURE))))) (log_call ?c s)"
    using m loop by (simp add: arp_iter_def get_cache_def fds sys_select_def Let_def)
  ultimately show ?thesis
    by (cases "os_int os (?c # hist s) < 0") (auto simp: runs_to_def log_call_logs)
qed

end
