(* ===== verification/Arp_Correct.thy ===== *)
theory Arp_Correct
  imports Arp_Safety
begin

text \<open>
  What the ARP daemon promises: safety of the select loop for all its reachable states
  while one client is served at a time, the answers to clients and to other hosts on
  every path, and the inputs for which the code, as it is, leaves its arrays, loses track
  of a client or never returns.
\<close>

section \<open>The loop as a state machine\<close>

definition arp_start :: "cstate \<Rightarrow> bool" where
  "arp_start s \<longleftrightarrow> cache s = None \<and> heap s = Map.empty"

inductive arp_step :: "os \<Rightarrow> int \<Rightarrow> int \<Rightarrow> hwa_info list \<Rightarrow> cstate \<Rightarrow> cstate \<Rightarrow> bool"
  for os ud pf devs where
  turn: "env_ok os ud pf devs \<Longrightarrow> serial os ud s \<Longrightarrow> arp_iter os ud pf devs s = Some (Inr (None, t)) \<Longrightarrow>
    arp_step os ud pf devs s t"

inductive_cases arp_stepE: "arp_step os ud pf devs s t"

definition table_inv :: "cstate \<Rightarrow> bool" where
  "table_inv s \<longleftrightarrow> (\<exists>as. arp_inv s as)"

lemma arp_start_inv: "arp_start s \<Longrightarrow> arp_inv s []"
  by (simp add: arp_start_def arp_inv_def cache_rep_def table_ok_def busy_def)

interpretation arp_loop: invariant_system arp_start "arp_step os ud pf devs" table_inv for os ud pf devs
proof
  show "table_inv s" if "arp_start s" for s
    using that arp_start_inv by (auto simp: table_inv_def)
  show "table_inv t" if "table_inv s" "arp_step os ud pf devs s t" for s t
    using that arp_iter_runs [of s _ os ud pf devs] by (fastforce simp: table_inv_def runs_to_def elim!: arp_stepE)
qed

text \<open>C2: from the empty cache, as long as no client connects while another is served and the environment
  delivers Ethernet and IPv4 packets, every turn of the select loop that is reached returns without touching freed memory,
  leaving an array or overflowing an \<open>fd_set\<close>; the cache stays a correctly linked table with one entry per address, and
  what it has learned is never lost or changed.\<close>

theorem arp_loop_safe:
  assumes "reach arp_start (arp_step os ud pf devs) s" and "env_ok os ud pf devs" and "serial os ud s"
  shows "\<exists>as. arp_inv s as \<and> runs_to (arp_iter os ud pf devs) s (\<lambda>_ t. \<exists>bs. arp_inv t bs \<and> learned_kept s as t bs)"
proof -
  have "table_inv s" using assms(1) by (rule arp_loop.reach_inv)
  then show ?thesis using arp_iter_runs [OF _ assms(2,3)] unfolding table_inv_def by blast
qed

definition demo_devs :: "hwa_info list" where
  "demo_devs = [\<lparr>if_name = ''eth0'', if_haddr = [2, 0, 0, 0, 0, 1], if_index = 2, ip_alias = 0,
     ip_addr = mk_sockaddr_in AF_INET 0x0100000A, hwa_ptr = 100, ip_addr_ptr = 200\<rparr>]"

definition idle_daemon :: cstate where
  "idle_daemon = \<lparr>hist = [], heap = Map.empty, brk = 10, cache = None\<rparr>"

text \<open>A client connects in the first turn; the \<open>select\<close> of the second one fails.\<close>

definition one_client_os :: os where
  "one_client_os = demo_os\<lparr>os_int := (\<lambda>h. case h of Accept _ # _ \<Rightarrow> 7 | Select _ _ # _ # _ \<Rightarrow> -1 | _ \<Rightarrow> 1),
     os_ready := (\<lambda>h fd. length h = 1 \<and> fd = 4)\<rparr>"

definition one_client_daemon :: cstate where
  "one_client_daemon = \<lparr>hist = [Calloc 1 72, Accept 4, Select [5, 4] None],
     heap = [10 \<mapsto> zero_Cache\<lparr>domain_socket := 7\<rparr>], brk = 11, cache = Some 10\<rparr>"

lemma one_client_env: "env_ok one_client_os 4 5 demo_devs"
  by (simp add: env_ok_def one_client_os_def demo_os_def fd_ok_def demo_devs_def frame_ok_def)

lemma one_client_serial: "serial one_client_os 4 idle_daemon" "serial one_client_os 4 one_client_daemon"
  by (simp_all add: serial_def waiting_def idle_daemon_def one_client_daemon_def one_client_os_def)

lemma one_client_turn: "arp_iter one_client_os 4 5 demo_devs idle_daemon = Some (Inr (None, one_client_daemon))"
proof -
  have "maxfd 5 4 None idle_daemon = Some (Inr (5, idle_daemon))" "fdset_loop [5, 4] None idle_daemon = Some (Inr ([5, 4], idle_daemon))"
      "scan_clients os pf devs rset None s = Some (Inr ((), s))" for os pf devs rset s
    by (simp_all add: maxfd_def maxfd_loop.simps fdset_loop.simps scan_clients.simps)
  moreover have "accept_client one_client_os 4 (log_call (Select [5, 4] None) idle_daemon) = Some (Inr ((), one_client_daemon))"
    by (simp add: accept_client_def get_cache_def getCacheBySocket_def calloc_Cache_def sys_def modify_def addToCache_def set_cache_def
        idle_daemon_def one_client_daemon_def one_client_os_def log_call_def zero_Cache_def bnd_def)
  ultimately show ?thesis
    by (simp add: arp_iter_def idle_daemon_def get_cache_def fd_set_add_def fd_ok_def sys_select_def Let_def one_client_os_def)
qed



theorem arp_loop_safe_witness:
  "\<exists>as. arp_inv one_client_daemon as \<and>
    runs_to (arp_iter one_client_os 4 5 demo_devs) one_client_daemon (\<lambda>_ t. \<exists>bs. arp_inv t bs \<and> learned_kept one_client_daemon as t bs)"
proof -
  have "reach arp_start (arp_step one_client_os 4 5 demo_devs) idle_daemon" by (rule reach_start) (simp add: arp_start_def idle_daemon_def)
  then have "reach arp_start (arp_step one_client_os 4 5 demo_devs) one_client_daemon"
    by (rule reach_step) (rule turn [OF one_client_env one_client_serial(1) one_client_turn])
  then show ?thesis by (rule arp_loop_safe [OF _ one_client_env one_client_serial(2)])
qed




section \<open>Clients\<close>

lemma zero_sockaddr_simps [simp]:
  "sa_family zero_sockaddr = 0" "mk_sockaddr_in AF_INET ip \<noteq> zero_sockaddr" "zero_sockaddr \<noteq> mk_sockaddr_in AF_INET ip"
  by (auto simp: zero_sockaddr_def mk_sockaddr_in_def)

lemma areq_cached_eq:
  assumes inv: "arp_inv s as" and a: "a \<in> set as" "state (entry_of s a) = STATE_CONNECTION"
    and b: "b \<in> set as" "ipaddress (entry_of s b) = addr ar" "sa_family (addr ar) = AF_INET" and wf: "wf_areq ar"
    and sock: "sock = domain_socket (entry_of s a)" and req: "os_recv os (Recv sock 21 # hist s) = Some (enc_areq ar)"
  shows "handle_areq os pf (Some a) devs s = Some (Inr (0, logs [Send sock (enc_hwaddr (hw (entry_of s b))), Recv sock 21] s))"
proof -
  obtain c where c: "heap s a = Some c" "state c = STATE_CONNECTION" "domain_socket c = sock"
    using arp_inv_heap [OF inv a(1)] a(2) sock by (auto simp: entry_simps)
  have ar: "dec_areq (enc_areq ar) = ar" "length (enc_areq ar) = 20"
    using wf by (simp_all add: areq_wire.dec_enc areq_wire.enc_length)
  obtain b' where b': "find (\<lambda>x. ipaddress (the (heap s x)) = addr ar) as = Some b'"
    using b(1,2) by (cases "find (\<lambda>x. ipaddress (the (heap s x)) = addr ar) as") (auto simp: find_None_iff entry_simps)
  then have "b' \<in> set as" "ipaddress (entry_of s b') = addr ar" by (auto simp: find_Some_iff entry_simps)
  moreover have "state (entry_of s b) \<noteq> STATE_CONNECTION"
    using entry_okD [OF inv b(1)] b(2,3) by (auto simp: entry_ok_def)
  ultimately have "b' = b" using arp_invD(3) [OF inv] b(1,2) unfolding table_ok_def by metis
  with b' have "find (\<lambda>x. ipaddress (the (heap s x)) = addr ar) as = Some b" by simp
  moreover have "os_recv os (Recv (domain_socket c) 21 # hist s) = Some (enc_areq ar)" using req c(3) by simp
  ultimately show ?thesis
    using handle_areq_lookup(1) [OF inv a(1) c(1,2) _ ar(2) _ b(3), of os b pf devs] ar(1) c(3) by metis
qed

text \<open>C16: a client that asks for an address the cache knows gets exactly the cached hardware address, once,
  and is then to be dropped; no packet is sent and the cache is not changed.\<close>

theorem arp_areq_cached:
  assumes inv: "arp_inv s as" and a: "a \<in> set as" "state (entry_of s a) = STATE_CONNECTION"
    and b: "b \<in> set as" "ipaddress (entry_of s b) = addr ar" "sa_family (addr ar) = AF_INET" and wf: "wf_areq ar"
    and sock: "sock = domain_socket (entry_of s a)" and req: "os_recv os (Recv sock 21 # hist s) = Some (enc_areq ar)"
  shows "handle_areq os pf (Some a) devs s = Some (Inr (0, logs [Send sock (enc_hwaddr (hw (entry_of s b))), Recv sock 21] s))"
  using assms by (rule areq_cached_eq)

text \<open>A daemon that serves one client and knows one host.\<close>

definition busy_daemon :: cstate where
  "busy_daemon = \<lparr>hist = [],
     heap = [10 \<mapsto> zero_Cache\<lparr>domain_socket := 7, nextp := Some 20\<rparr>,
             20 \<mapsto> zero_Cache\<lparr>ipaddress := mk_sockaddr_in AF_INET 0x0200000A, state := STATE_COMPLETE, domain_socket := -1,
                   hw := zero_hwaddr\<lparr>sll_halen := 6, sll_addr := [2, 0, 0, 0, 0, 2, 0, 0]\<rparr>, prevp := Some 10\<rparr>],
     brk = 30, cache = Some 10\<rparr>"

definition areq_os :: "u32 \<Rightarrow> os" where
  "areq_os ip = demo_os\<lparr>os_recv := (\<lambda>_. Some (enc_areq \<lparr>addr = mk_sockaddr_in AF_INET ip, addrlen = 16\<rparr>))\<rparr>"

lemma busy_daemon_inv: "arp_inv busy_daemon [10, 20]"
  by (auto simp: arp_inv_def busy_daemon_def cache_rep_def table_ok_def entry_ok_def entry_of_def strip_def wf_Cache_def
      zero_Cache_def wf_hwaddr_def zero_hwaddr_def fd_ok_def head_ok_def)

lemma busy_daemon_entry:
  "entry_of busy_daemon 10 = zero_Cache\<lparr>domain_socket := 7\<rparr>"
  "ipaddress (entry_of busy_daemon 20) = mk_sockaddr_in AF_INET 0x0200000A"
  "hw (entry_of busy_daemon 20) = zero_hwaddr\<lparr>sll_halen := 6, sll_addr := [2, 0, 0, 0, 0, 2, 0, 0]\<rparr>"
  by (simp_all add: busy_daemon_def entry_of_def strip_def zero_Cache_def)

theorem arp_areq_cached_witness:
  "handle_areq (areq_os 0x0200000A) 5 (Some 10) demo_devs busy_daemon =
    Some (Inr (0, logs [Send 7 (enc_hwaddr (zero_hwaddr\<lparr>sll_halen := 6, sll_addr := [2, 0, 0, 0, 0, 2, 0, 0]\<rparr>)), Recv 7 21] busy_daemon))"
  unfolding busy_daemon_entry(3) [symmetric]
  by (rule arp_areq_cached [OF busy_daemon_inv, where ar = "\<lparr>addr = mk_sockaddr_in AF_INET 0x0200000A, addrlen = 16\<rparr>"])
     (simp_all add: busy_daemon_entry zero_Cache_def wf_areq_def areq_os_def)

text \<open>C17: a client that asks for an address the cache does not know becomes an incomplete entry for that
  address, and one ARP request for it goes out of every interface, in order; only a request that could not be sent ends
  the broadcast early, and then and only then the result is 0. The other entries stay as they are.\<close>

theorem arp_areq_broadcast:
  assumes inv: "arp_inv s as" and a: "a \<in> set as" "state (entry_of s a) = STATE_CONNECTION" and dev: "wf_devices devs"
    and new: "\<forall>b \<in> set as. ipaddress (entry_of s b) \<noteq> addr ar" "sa_family (addr ar) = AF_INET" and wf: "wf_areq ar"
    and sock: "sock = domain_socket (entry_of s a)" and req: "os_recv os (Recv sock 21 # hist s) = Some (enc_areq ar)"
  shows "\<exists>k r t. handle_areq os pf (Some a) devs s = Some (Inr (r, t)) \<and>
    sent_until os (map (request_call pf (sin_addr (addr ar))) devs) (Recv sock 21 # hist s) k r \<and>
    hist t = rev (map (request_call pf (sin_addr (addr ar))) (take k devs)) @ Recv sock 21 # hist s \<and> arp_inv t as \<and>
    entry_of t = (entry_of s)(a := (entry_of s a)\<lparr>state := STATE_INCOMPLETE, ipaddress := addr ar\<rparr>)"
proof -
  obtain c where c: "heap s a = Some c" "state c = STATE_CONNECTION" "domain_socket c = sock"
    using arp_inv_heap [OF inv a(1)] a(2) sock by (auto simp: entry_simps)
  have ar: "dec_areq (enc_areq ar) = ar" "length (enc_areq ar) = 20"
    using wf by (simp_all add: areq_wire.dec_enc areq_wire.enc_length)
  have none: "find (\<lambda>x. ipaddress (the (heap s x)) = addr ar) as = None"
    using new(1) by (simp add: find_None_iff entry_simps)
  let ?s0 = "log_call (Recv sock 21) s"
  let ?f = "\<lambda>c. c\<lparr>state := STATE_INCOMPLETE\<rparr>" and ?g = "\<lambda>c. c\<lparr>ipaddress := addr ar\<rparr>"
  let ?t = "upd (upd ?s0 a ?f) a ?g"
  have run: "handle_areq os pf (Some a) devs s = areq_broadcast os pf PF_INET 4 (addr ar) devs ?t"
    using handle_areq_lookup(2) [OF inv a(1) c(1,2), of os "enc_areq ar" "addr ar" pf devs] ar new(2) req c(3) none by simp
  obtain k r where kr: "areq_broadcast os pf PF_INET 4 (addr ar) devs ?t =
      Some (Inr (r, logs (rev (map (request_call pf (sin_addr (addr ar))) (take k devs))) ?t))"
      "sent_until os (map (request_call pf (sin_addr (addr ar))) devs) (hist ?t) k r" using areq_broadcast_runs [OF dev] by blast
  have rep0: "cache_rep ?s0 as" using arp_invD(1) [OF inv] by simp
  have e: "entry_of ?t = (entry_of s)(a := (entry_of s a)\<lparr>state := STATE_INCOMPLETE, ipaddress := addr ar\<rparr>)"
    using upd_facts(4) [OF upd_facts(2) [OF rep0 a(1), of ?f] a(1), of ?g] upd_facts(4) [OF rep0 a(1), of ?f] by simp
  have "runs_to (handle_areq os pf (Some a) devs) s (\<lambda>r t. arp_inv t as)"
    using handle_areq_runs [OF inv a dev] by (rule runs_to_mono) simp
  then have "arp_inv ?t as" using run kr(1) by (simp add: runs_to_def)
  with run kr e show ?thesis
    by (intro exI [of _ k] exI [of _ r] exI [of _ "logs (rev (map (request_call pf (sin_addr (addr ar))) (take k devs))) ?t"]) simp
qed

text \<open>A host with two interfaces, on which the second request cannot be sent.\<close>

definition two_devs :: "hwa_info list" where
  "two_devs = demo_devs @ map (\<lambda>d. d\<lparr>if_index := 3\<rparr>) demo_devs"

definition unplugged_os :: os where
  "unplugged_os = (areq_os 0x0300000A)\<lparr>os_int := (\<lambda>h. if length h < 3 then 60 else -1)\<rparr>"

theorem arp_areq_broadcast_witness:
  "\<exists>t. handle_areq unplugged_os 5 (Some 10) two_devs busy_daemon = Some (Inr (0, t)) \<and>
    hist t = rev (map (request_call 5 0x0300000A) two_devs) @ [Recv 7 21] \<and> arp_inv t [10, 20] \<and>
    entry_of t = (entry_of busy_daemon)(10 := (entry_of busy_daemon 10)
      \<lparr>state := STATE_INCOMPLETE, ipaddress := mk_sockaddr_in AF_INET 0x0300000A\<rparr>)"
proof -
  let ?ar = "\<lparr>addr = mk_sockaddr_in AF_INET 0x0300000A, addrlen = 16\<rparr>"
  let ?cs = "map (request_call 5 (sin_addr (addr ?ar))) two_devs"
  have "\<exists>k r t. handle_areq unplugged_os 5 (Some 10) two_devs busy_daemon = Some (Inr (r, t)) \<and>
      sent_until unplugged_os ?cs (Recv 7 21 # hist busy_daemon) k r \<and>
      hist t = rev (map (request_call 5 (sin_addr (addr ?ar))) (take k two_devs)) @ Recv 7 21 # hist busy_daemon \<and> arp_inv t [10, 20] \<and>
      entry_of t = (entry_of busy_daemon)(10 := (entry_of busy_daemon 10)\<lparr>state := STATE_INCOMPLETE, ipaddress := addr ?ar\<rparr>)"
    by (rule arp_areq_broadcast [OF busy_daemon_inv])
       (simp_all add: busy_daemon_entry zero_Cache_def wf_areq_def areq_os_def demo_devs_def two_devs_def unplugged_os_def)
  then obtain k r t where *: "handle_areq unplugged_os 5 (Some 10) two_devs busy_daemon = Some (Inr (r, t))"
      "sent_until unplugged_os ?cs (Recv 7 21 # hist busy_daemon) k r"
      "hist t = rev (map (request_call 5 (sin_addr (addr ?ar))) (take k two_devs)) @ Recv 7 21 # hist busy_daemon" "arp_inv t [10, 20]"
      "entry_of t = (entry_of busy_daemon)(10 := (entry_of busy_daemon 10)\<lparr>state := STATE_INCOMPLETE, ipaddress := addr ?ar\<rparr>)" by blast
  have h: "hist busy_daemon = []" "sin_addr (addr ?ar) = 0x0300000A" by (simp_all add: busy_daemon_def)
  have "r = 0 \<and> k = 2"
    using *(2) by (auto simp: sent_until_def unplugged_os_def two_devs_def demo_devs_def h(1) split: if_splits)
  with * h show ?thesis by (intro exI [of _ t]) (simp add: two_devs_def demo_devs_def)
qed

section \<open>Other hosts\<close>

text \<open>C11: an ARP reply completes every entry that waits for its address, and no other: the client gets
  the hardware address of the reply, its connection is closed, and the entry keeps the answer.\<close>

theorem arp_reply_completes:
  assumes rep: "cache_rep s as" and wf: "wf_heap s" and pk: "packet_ok arp"
    and mac: "mac_by_ifindex devs (ll_ifindex src) = Some mac" "length mac = 6"
    and new: "new = reply_answer mac arp src" and ip: "ip = mk_sockaddr_in (prot_type arp) (un32 (ARP_TPA arp))"
  shows "runs_to (handle_reply os fd eh arp src devs) s (\<lambda>r t. r = 0 \<and> cache_rep t as \<and>
    (\<forall>a \<in> set as. entry_of t a = (if ipaddress (entry_of s a) = ip \<and> state (entry_of s a) = STATE_INCOMPLETE
       then (entry_of s a)\<lparr>hw := new, domain_socket := -1, state := STATE_COMPLETE\<rparr> else entry_of s a)) \<and>
    hist t = rev (concat (map (\<lambda>a. if ipaddress (entry_of s a) = ip \<and> state (entry_of s a) = STATE_INCOMPLETE
       then [Send (domain_socket (entry_of s a)) (enc_hwaddr new), Close (domain_socket (entry_of s a))] else []) as)) @ hist s)"
proof -
  let ?t = "after_reply ip new as s"
  have run: "handle_reply os fd eh arp src devs s = Some (Inr (0, ?t))"
    unfolding new ip using handle_reply_eq [OF rep wf pk mac] .
  have "cache_rep ?t as" using rep by (auto simp: cache_rep_def intro: dls_answered)
  moreover have "entry_of ?t a = answered ip new (entry_of s a)" if "a \<in> set as" for a
    using that cache_rep_entry [OF rep that] by (auto intro: entry_of_after_reply)
  moreover have "hist ?t = rev (concat (map (\<lambda>a. answer_calls ip new (entry_of s a)) as)) @ hist s"
    by (simp add: after_reply_def)
  ultimately show ?thesis using run by (simp add: runs_to_def answered_def answer_calls_def awaits_def)
qed

definition demo_reply :: arp_hdr where
  "demo_reply = \<lparr>arp_id = ARP_ID, hard_type = ARPHRD_ETHER, prot_type = PF_INET, hard_len = 6, prot_len = 4, arp_op = ARPOP_REPLY,
     arp_data = [2, 0, 0, 0, 0, 1] @ le32 0x0300000A @ [2, 0, 0, 0, 0, 3] @ le32 0x0300000A @ replicate 28 0\<rparr>"

definition demo_src :: sockaddr_ll where
  "demo_src = \<lparr>ll_family = AF_PACKET, ll_protocol = 0, ll_ifindex = 2, ll_hatype = 1, ll_halen = 6, ll_addr = [2, 0, 0, 0, 0, 3, 0, 0]\<rparr>"

lemma demo_reply_ok: "packet_ok demo_reply"
  by (simp add: packet_ok_def demo_reply_def wf_arp_hdr_def)

lemma demo_mac: "mac_by_ifindex demo_devs (ll_ifindex demo_src) = Some [2, 0, 0, 0, 0, 1]"
  by (simp add: demo_devs_def demo_src_def)

definition waiting_daemon :: cstate where
  "waiting_daemon = busy_daemon\<lparr>heap := (heap busy_daemon)(10 \<mapsto> zero_Cache\<lparr>ipaddress := mk_sockaddr_in AF_INET 0x0300000A,
     state := STATE_INCOMPLETE, domain_socket := 7, nextp := Some 20\<rparr>)\<rparr>"

lemma waiting_daemon_rep: "cache_rep waiting_daemon [10, 20]" "wf_heap waiting_daemon"
  by (auto simp: waiting_daemon_def busy_daemon_def cache_rep_def wf_heap_def wf_Cache_def zero_Cache_def wf_hwaddr_def zero_hwaddr_def)

theorem arp_reply_completes_witness:
  "runs_to (handle_reply demo_os 5 zero_ethhdr demo_reply demo_src demo_devs) waiting_daemon (\<lambda>r t. r = 0 \<and> cache_rep t [10, 20] \<and>
    (\<forall>a \<in> set [10, 20]. entry_of t a = (if ipaddress (entry_of waiting_daemon a) = mk_sockaddr_in AF_INET 0x0300000A \<and>
        state (entry_of waiting_daemon a) = STATE_INCOMPLETE
       then (entry_of waiting_daemon a)\<lparr>hw := reply_answer [2, 0, 0, 0, 0, 1] demo_reply demo_src, domain_socket := -1, state := STATE_COMPLETE\<rparr>
       else entry_of waiting_daemon a)) \<and>
    hist t = rev (concat (map (\<lambda>a. if ipaddress (entry_of waiting_daemon a) = mk_sockaddr_in AF_INET 0x0300000A \<and>
        state (entry_of waiting_daemon a) = STATE_INCOMPLETE
       then [Send (domain_socket (entry_of waiting_daemon a)) (enc_hwaddr (reply_answer [2, 0, 0, 0, 0, 1] demo_reply demo_src)),
         Close (domain_socket (entry_of waiting_daemon a))] else []) [10, 20])) @ hist waiting_daemon)"
  by (rule arp_reply_completes [OF waiting_daemon_rep demo_reply_ok demo_mac])
     (simp_all add: demo_reply_def ARP_TPA_def)

text \<open>C12: a request for the address of one of the host's interfaces is answered by one frame to its sender
  that carries the interface's hardware address, and afterwards the cache has an entry for the sender; an entry it already
  had is not changed, a new one holds the address the frame came from.\<close>

theorem arp_request_answered:
  assumes "arp_inv s as" and "wf_devices devs" and "packet_ok arp" and "source_ok devs src"
    and "mac_by_ifindex devs (ll_ifindex src) = Some mac" and "length (h_source eh) = 6"
    and "prot_type arp = PF_INET" and "isDestination devs (Some (un32 (ARP_TPA arp))) = Some this"
    and "\<And>h. 0 \<le> os_int os (Calloc 1 72 # h)"
  shows "\<exists>t bs x y cs. handle_req os fd eh arp src devs s = Some (Inr (1, t)) \<and> arp_inv t bs \<and>
    hist t = cs @ reply_call fd arp eh this mac (ll_ifindex src) # Out x # Out y # hist s \<and> set cs \<subseteq> {Calloc 1 72} \<and>
    (\<forall>b \<in> set as. b \<in> set bs \<and> entry_of t b = entry_of s b) \<and>
    (\<exists>b \<in> set bs. ipaddress (entry_of t b) = mk_sockaddr_in AF_INET (un32 (ARP_SPA arp))) \<and>
    (\<forall>b \<in> set bs. b \<notin> set as \<longrightarrow> entry_of t b = zero_Cache\<lparr>ipaddress := mk_sockaddr_in AF_INET (un32 (ARP_SPA arp)),
      state := STATE_COMPLETE, hw := reverse_entry mac src\<rparr>)"
  using assms by (rule handle_req_runs)

definition demo_request :: arp_hdr where
  "demo_request = \<lparr>arp_id = ARP_ID, hard_type = ARPHRD_ETHER, prot_type = PF_INET, hard_len = 6, prot_len = 4, arp_op = ARPOP_REQUEST,
     arp_data = [2, 0, 0, 0, 0, 3] @ le32 0x0300000A @ replicate 6 0 @ le32 0x0100000A @ replicate 28 0\<rparr>"

lemma demo_request_dest: "isDestination demo_devs (Some (un32 (ARP_TPA demo_request))) = Some (hd demo_devs)"
  by (simp add: demo_devs_def demo_request_def ARP_TPA_def)

theorem arp_request_answered_witness:
  "\<exists>t bs x y cs. handle_req demo_os 5 (zero_ethhdr\<lparr>h_source := [2, 0, 0, 0, 0, 3]\<rparr>) demo_request demo_src demo_devs busy_daemon =
      Some (Inr (1, t)) \<and> arp_inv t bs \<and>
    hist t = cs @ reply_call 5 demo_request (zero_ethhdr\<lparr>h_source := [2, 0, 0, 0, 0, 3]\<rparr>) (hd demo_devs) [2, 0, 0, 0, 0, 1]
      (ll_ifindex demo_src) # Out x # Out y # hist busy_daemon \<and> set cs \<subseteq> {Calloc 1 72} \<and>
    (\<forall>b \<in> set [10, 20]. b \<in> set bs \<and> entry_of t b = entry_of busy_daemon b) \<and>
    (\<exists>b \<in> set bs. ipaddress (entry_of t b) = mk_sockaddr_in AF_INET (un32 (ARP_SPA demo_request))) \<and>
    (\<forall>b \<in> set bs. b \<notin> set [10, 20] \<longrightarrow> entry_of t b = zero_Cache\<lparr>ipaddress := mk_sockaddr_in AF_INET (un32 (ARP_SPA demo_request)),
      state := STATE_COMPLETE, hw := reverse_entry [2, 0, 0, 0, 0, 1] demo_src\<rparr>)"
  by (rule arp_request_answered [OF busy_daemon_inv _ _ _ demo_mac _ _ demo_request_dest])
     (simp_all add: demo_devs_def packet_ok_def demo_request_def wf_arp_hdr_def source_ok_def demo_src_def demo_os_def)

section \<open>Where the code goes wrong\<close>

lemma valid_arp_lens: "valid_arp arp \<Longrightarrow> unat (hard_len arp) \<le> 8 \<and> unat (prot_len arp) \<le> 16"
  by (auto simp: valid_arp_def Let_def not_less word_le_nat_alt split: if_splits)

text \<open>C36: \<open>valid_arp\<close> accepts every protocol address length up to 16, but \<open>handle_req\<close> copies the target
  address into a \<open>struct in_addr\<close>: with a length above 4 it writes behind that variable; with one below 4 it compares bytes
  that were never written with the address of the first interface (and, without interfaces, ignores the request).\<close>

theorem arp_req_prot_len_faults:
  assumes "valid_arp arp" and "wf_arp_hdr arp" and "prot_len arp \<noteq> 4"
  shows "handle_req os fd eh arp src devs s =
    (if 4 < unat (prot_len arp) then Some (Inl OutOfBounds) else if devs \<noteq> [] then Some (Inl Uninit) else Some (Inr (1, s)))"
proof -
  note v = valid_arp_lens [OF assms(1)]
  have "unat (4 :: byte) = 4" by simp
  then have n: "unat (prot_len arp) \<noteq> 4" using assms(3) by (metis unsigned_word_eqI)
  moreover have "unat (prot_len arp) \<le> length (ARP_TPA arp)" using v assms(2) by (auto simp: ARP_TPA_def wf_arp_hdr_def)
  ultimately have "copy_in_addr (ARP_TPA arp) (unat (prot_len arp)) = (if 4 < unat (prot_len arp) then Inl OutOfBounds else Inr None)"
    by (auto simp: copy_in_addr_def memcpy_prefix memcpy_OutOfBounds)
  then show ?thesis by (simp add: handle_req_def find_target_def)
qed

theorem arp_req_prot_len_faults_witness:
  "handle_req demo_os 5 zero_ethhdr (demo_request\<lparr>prot_len := 16\<rparr>) demo_src demo_devs busy_daemon = Some (Inl OutOfBounds) \<and>
   handle_req demo_os 5 zero_ethhdr (demo_request\<lparr>prot_len := 3\<rparr>) demo_src demo_devs busy_daemon = Some (Inl Uninit)"
  using arp_req_prot_len_faults [of "demo_request\<lparr>prot_len := 16\<rparr>" demo_os 5 zero_ethhdr demo_src demo_devs busy_daemon]
    arp_req_prot_len_faults [of "demo_request\<lparr>prot_len := 3\<rparr>" demo_os 5 zero_ethhdr demo_src demo_devs busy_daemon]
  by (simp add: demo_request_def valid_arp_def wf_arp_hdr_def) (simp add: demo_devs_def)

text \<open>C37: a reply with a hardware length of 7 or 8, which \<open>valid_arp\<close> accepts, makes \<open>handle_reply\<close> read behind the
  six bytes of an interface's address; one that came in on an interface the daemon does not list makes it follow the null
  pointer that \<open>mac_by_ifindex\<close> returns.\<close>

theorem arp_reply_faults:
  assumes "valid_arp arp" and "wf_arp_hdr arp" and "wf_devices devs"
    and "mac_by_ifindex devs (ll_ifindex src) = None \<or> 6 < unat (hard_len arp)"
  shows "handle_reply os fd eh arp src devs s =
    Some (Inl (if mac_by_ifindex devs (ll_ifindex src) = None then NullDeref else OutOfBounds))"
proof -
  note v = valid_arp_lens [OF assms(1)]
  have "unat (hard_len arp) \<le> length (ARP_THA arp)" using v assms(2) by (auto simp: ARP_THA_def wf_arp_hdr_def)
  then have "reply_hw devs arp src = Inl (if mac_by_ifindex devs (ll_ifindex src) = None then NullDeref else OutOfBounds)"
    using v assms(4) mac_by_ifindex_length [OF assms(3)]
    by (cases "mac_by_ifindex devs (ll_ifindex src)")
       (auto simp: reply_hw_def copy_from_mac_def memcpy_prefix memcpy_def [of _ _ _ "unat (hard_len arp)"] get_bytes_def put_bytes_def)
  then show ?thesis by (simp add: handle_reply_def)
qed

theorem arp_reply_faults_witness:
  "handle_reply demo_os 5 zero_ethhdr (demo_reply\<lparr>hard_len := 8\<rparr>) demo_src demo_devs busy_daemon = Some (Inl OutOfBounds) \<and>
   handle_reply demo_os 5 zero_ethhdr demo_reply (demo_src\<lparr>ll_ifindex := 9\<rparr>) demo_devs busy_daemon = Some (Inl NullDeref)"
  using arp_reply_faults [of "demo_reply\<lparr>hard_len := 8\<rparr>" demo_devs demo_src demo_os 5 zero_ethhdr busy_daemon]
    arp_reply_faults [of demo_reply demo_devs "demo_src\<lparr>ll_ifindex := 9\<rparr>" demo_os 5 zero_ethhdr busy_daemon]
  by (simp add: demo_reply_def demo_src_def demo_devs_def valid_arp_def wf_arp_hdr_def)

lemma lone_bad_client:
  assumes rep: "cache_rep t [b]" and st: "state (entry_of t b) \<noteq> STATE_COMPLETE" "domain_socket (entry_of t b) = -1"
    and fd: "fd_ok ud" "fd_ok pf"
  shows "arp_iter os ud pf devs t = Some (Inl BadFd)"
proof -
  obtain c where c: "heap t b = Some c" "cache t = Some b" using rep by (auto simp: cache_rep_def)
  obtain m where m: "maxfd pf ud (cache t) t = Some (Inr (m, t))" using maxfd_ok [OF rep] by blast
  have "fdset_loop fds (Some b) t = Some (Inl BadFd)" for fds
    using c st by (subst fdset_loop.simps) (simp add: entry_simps fd_set_add_def fd_ok_def)
  then show ?thesis using m c fd by (simp add: arp_iter_def get_cache_def fd_set_add_def)
qed

text \<open>C32: entries are compared by content, and two clients that have not asked yet look the same.
  When the one that connected first is to be dropped, the entry of the other is freed instead and its connection is lost
  without being closed; the first stays in the list with descriptor -1, and the next turn of the loop puts that descriptor
  into an \<open>fd_set\<close>.\<close>

theorem arp_two_clients_confused:
  assumes rep: "cache_rep s [a, b]" and wf: "wf_heap s" and "head_ok s"
    and ea: "entry_of s a = zero_Cache\<lparr>domain_socket := f\<rparr>" and eb: "entry_of s b = zero_Cache\<lparr>domain_socket := g\<rparr>"
  shows "runs_to (drop_client (Some b)) s (\<lambda>_ t. cache_rep t [b] \<and> heap t a = None \<and> hist t = Free a # Close g # hist s \<and>
    domain_socket (entry_of t b) = -1 \<and> state (entry_of t b) = STATE_CONNECTION \<and>
    (\<forall>os ud pf devs. fd_ok ud \<longrightarrow> fd_ok pf \<longrightarrow> arp_iter os ud pf devs t = Some (Inl BadFd)))"
proof -
  let ?f = "\<lambda>c. c\<lparr>domain_socket := -1\<rparr>"
  have b: "b \<in> set [a, b]" and ab: "a \<noteq> b" using rep by (auto simp: cache_rep_def)
  obtain ca cb where h: "heap s a = Some ca" "heap s b = Some cb" using cache_rep_entry [OF rep, of a] cache_rep_entry [OF rep, of b] by auto
  let ?s1 = "upd (log_call (Close (domain_socket cb)) s) b ?f"
  have rep0: "cache_rep (log_call (Close (domain_socket cb)) s) [a, b]" using rep by simp
  note u = upd_facts [OF rep0 b data_only_simps(2) [of "-1"]]
  have wf1: "wf_heap ?s1" using wf h by (auto simp: wf_heap_def wf_Cache_def)
  have hd: "head_ok ?s1" using u(3) assms(3) by simp
  have data: "ipaddress ca = zero_sockaddr" "hw ca = zero_hwaddr" "ipaddress cb = zero_sockaddr" "hw cb = zero_hwaddr"
      "domain_socket cb = g" "state cb = STATE_CONNECTION"
    using arg_cong [OF ea, of ipaddress] arg_cong [OF ea, of hw] arg_cong [OF eb, of ipaddress] arg_cong [OF eb, of hw]
      arg_cong [OF eb, of domain_socket] arg_cong [OF eb, of state] h by (simp_all add: entry_simps zero_Cache_def)
  have same: "same_as ?s1 b a" using ab h data by (simp add: same_entry_def)
  have "runs_to (removeFromCache Addr_of_cache (Some b)) ?s1 (\<lambda>r t.
      r \<and> cache_rep t ([] @ [b]) \<and> heap t a = None \<and> ([] \<noteq> ([] :: addr list) \<longrightarrow> head_ok t) \<and>
      hist t = Free a # hist ?s1 \<and> (\<forall>x. x \<noteq> a \<longrightarrow> map_option strip (heap t x) = map_option strip (heap ?s1 x)))"
    by (rule removeFromCache_runs [OF _ wf1 hd _ same]) (use u(2) in simp_all)
  then obtain r t where t: "removeFromCache Addr_of_cache (Some b) ?s1 = Some (Inr (r, t))" "cache_rep t [b]"
      "heap t a = None" "hist t = Free a # hist ?s1" "\<forall>x. x \<noteq> a \<longrightarrow> map_option strip (heap t x) = map_option strip (heap ?s1 x)"
    unfolding runs_to_def append_Nil by blast
  have "drop_client (Some b) s = Some (Inr ((), t))"
    using h t(1) by (simp add: drop_client_def do_call_def bnd_def)
  moreover have "entry_of t b = entry_of ?s1 b" using t(5) ab by (intro entry_of_strip_eq) auto
  then have e: "entry_of t b = strip (?f cb)" using h by (simp add: entry_of_def)
  moreover have "arp_iter os ud pf devs t = Some (Inl BadFd)" if fd: "fd_ok ud" "fd_ok pf" for os ud pf devs
    using lone_bad_client [OF t(2) _ _ fd] e data by simp
  ultimately show ?thesis using t data e by (simp add: runs_to_def)
qed

lemma two_clients: "cache_rep (busy_daemon\<lparr>heap := h\<rparr>) [10, 20]" "wf_heap (busy_daemon\<lparr>heap := h\<rparr>)" "head_ok (busy_daemon\<lparr>heap := h\<rparr>)"
  "entry_of (busy_daemon\<lparr>heap := h\<rparr>) 10 = zero_Cache\<lparr>domain_socket := 8\<rparr>"
  "entry_of (busy_daemon\<lparr>heap := h\<rparr>) 20 = zero_Cache\<lparr>domain_socket := 7\<rparr>"
  if "h = [10 \<mapsto> zero_Cache\<lparr>domain_socket := 8, nextp := Some 20\<rparr>, 20 \<mapsto> zero_Cache\<lparr>domain_socket := 7, prevp := Some 10\<rparr>]"
  using that by (auto simp: busy_daemon_def cache_rep_def zero_Cache_def wf_heap_def wf_Cache_def wf_hwaddr_def zero_hwaddr_def
      head_ok_def entry_of_def strip_def)

theorem arp_two_clients_confused_witness:
  "\<exists>s. runs_to (drop_client (Some 20)) s (\<lambda>_ t. cache_rep t [20] \<and> heap t 10 = None \<and> hist t = Free 10 # Close 7 # hist s \<and>
    domain_socket (entry_of t 20) = -1 \<and> state (entry_of t 20) = STATE_CONNECTION \<and>
    (\<forall>os ud pf devs. fd_ok ud \<longrightarrow> fd_ok pf \<longrightarrow> arp_iter os ud pf devs t = Some (Inl BadFd)))"
  using arp_two_clients_confused [OF two_clients [OF refl]] by blast

lemma maxfd_loop_cycle:
  assumes cyc: "\<And>x. x \<in> C \<Longrightarrow> \<exists>c y. heap s x = Some c \<and> nextp c = Some y \<and> y \<in> C" and "a \<in> C"
  shows "maxfd_loop m (Some a) s = None"
proof (rule ccontr)
  assume "maxfd_loop m (Some a) s \<noteq> None"
  then obtain r where r: "maxfd_loop m (Some a) s = Some r" by auto
  have "\<not> ((\<exists>x\<in>C. Some a = Some x) \<and> s = s)"
  proof (rule maxfd_loop.raw_induct [where P = "\<lambda>m p t r. \<not> ((\<exists>x\<in>C. p = Some x) \<and> t = s)", OF _ r])
    fix loop mx p t r
    assume IH: "\<And>mx p t r. loop mx p t = Some r \<Longrightarrow> \<not> ((\<exists>x\<in>C. p = Some x) \<and> t = s)"
      and eq: "(case p of None \<Rightarrow> ret mx t | Some a \<Rightarrow> bnd (load p) (\<lambda>c s.
         loop (if state c \<noteq> STATE_COMPLETE then (if mx > domain_socket c then mx else domain_socket c) else mx) (nextp c) s) t) = Some r"
    show "\<not> ((\<exists>x\<in>C. p = Some x) \<and> t = s)"
    proof
      assume "(\<exists>x\<in>C. p = Some x) \<and> t = s"
      then obtain x c y where "p = Some x" "heap s x = Some c" "nextp c = Some y" "y \<in> C" "t = s" using cyc by blast
      then have "\<exists>mx. loop mx (Some y) s = Some r" using eq by (auto simp: bnd_def)
      with IH \<open>y \<in> C\<close> show False by blast
    qed
  qed
  with \<open>a \<in> C\<close> show False by blast
qed

text \<open>C33: the result of \<open>accept\<close> is not checked. When it fails, the -1 it returns is looked up as a
  socket and found in an entry that a reply completed; that entry is linked in front of the list a second time, the list
  becomes a cycle, and the next turn of the loop never returns.\<close>

theorem arp_accept_failure_hangs:
  assumes rep: "cache_rep s as" and "a \<in> set as" and "domain_socket (entry_of s a) = -1"
    and fail: "os_int os (Accept ud # hist s) = -1"
  shows "runs_to (accept_client os ud) s (\<lambda>_ t. \<forall>os' pf devs. arp_iter os' ud pf devs t = None)"
proof -
  let ?s = "log_call (Accept ud) s"
  have rep0: "cache_rep ?s as" using rep by simp
  obtain b where b: "find (\<lambda>x. domain_socket (the (heap s x)) = -1) as = Some b"
    using assms(2,3) by (cases "find (\<lambda>x. domain_socket (the (heap s x)) = -1) as") (auto simp: find_None_iff entry_simps)
  then have "b \<in> set as" by (auto simp: find_Some_iff)
  then obtain c where c: "heap s b = Some c" using cache_rep_entry [OF rep] by blast
  let ?f = "\<lambda>c. c\<lparr>domain_socket := -1\<rparr>" and ?g = "\<lambda>c. c\<lparr>state := STATE_CONNECTION\<rparr>"
  let ?s1 = "upd (upd ?s b ?f) b ?g"
  have rep1: "cache_rep ?s1 as"
    using upd_facts(2) [OF upd_facts(2) [OF rep0 \<open>b \<in> set as\<close>, of ?f] \<open>b \<in> set as\<close>, of ?g] by simp
  let ?t = "?s1\<lparr>heap := linked_front ?s1 b, cache := Some b\<rparr>"
  have hb: "heap ?s1 b \<noteq> None" by simp
  have "getCacheBySocket (cache s) (-1) ?s = Some (Inr (Some b, ?s))"
    using getCacheBySocket_find [OF rep0, of "-1"] b by simp
  then have run: "accept_client os ud s = Some (Inr ((), ?t))"
    using fail c addToCache_eq [OF rep1 hb] by (simp add: accept_client_def sys_def get_cache_def bnd_def)
  obtain pre post where as: "as = pre @ b # post" using \<open>b \<in> set as\<close> by (auto simp: in_set_conv_decomp)
  have "maxfd_loop m (Some b) ?t = None" for m
  proof (rule maxfd_loop_cycle [where C = "insert b (set pre)"])
    fix x assume "x \<in> insert b (set pre)"
    then show "\<exists>c y. heap ?t x = Some c \<and> nextp c = Some y \<and> y \<in> insert b (set pre)"
      using readd_cycle [of ?s1 pre b post x] rep1 as by simp
  qed simp
  then have "arp_iter os' ud pf devs ?t = None" for os' pf devs
    by (simp add: arp_iter_def get_cache_def maxfd_def Let_def)
  with run show ?thesis by (simp add: runs_to_def)
qed

theorem arp_accept_failure_hangs_witness:
  "runs_to (accept_client (demo_os\<lparr>os_int := (\<lambda>_. -1)\<rparr>) 4) busy_daemon (\<lambda>_ t. \<forall>os' pf devs. arp_iter os' 4 pf devs t = None)"
  by (rule arp_accept_failure_hangs [OF arp_invD(1) [OF busy_daemon_inv], of 20]) (simp_all add: busy_daemon_def entry_of_def)

section \<open>Two hosts\<close>

lemma arp_of_the_frame:
  assumes "6 \<le> length dst" and "6 \<le> length src" and "length body \<le> 58"
  shows "arp_of_frame (the_frame ETH_P_ARP_SH dst src body) = ntoh_arp (dec_arp_hdr (body @ replicate (58 - length body) 0))"
    and "length (the_frame ETH_P_ARP_SH dst src body) = 14 + length body"
proof -
  show len: "length (the_frame ETH_P_ARP_SH dst src body) = 14 + length body"
    using arp_frames.sent_bounds [of "length body" body dst src] assms by simp
  show "arp_of_frame (the_frame ETH_P_ARP_SH dst src body) = ntoh_arp (dec_arp_hdr (body @ replicate (58 - length body) 0))"
    unfolding arp_of_frame_def len arp_frames.sent_header(2) [OF assms(1,2)] by simp
qed

lemma ntoh_fields:
  "length d = 48 \<Longrightarrow> ntoh_arp (dec_arp_hdr (enc_arp_fields (htons i) (htons ht) (htons pt) hl pl (htons opc) @ d)) =
    \<lparr>arp_id = i, hard_type = ht, prot_type = pt, hard_len = hl, prot_len = pl, arp_op = opc, arp_data = d\<rparr>"
  by (simp add: dec_arp_hdr_fields ntoh_arp_def)

lemma arp_of_request:
  assumes "length (if_haddr d) = 6" and "6 \<le> length dst"
  shows "arp_of_frame (the_frame ETH_P_ARP_SH dst (if_haddr d) (request_packet tgt d)) =
    \<lparr>arp_id = ARP_ID, hard_type = ARPHRD_ETHER, prot_type = PF_INET, hard_len = 6, prot_len = 4, arp_op = ARPOP_REQUEST,
     arp_data = if_haddr d @ le32 (sin_addr (ip_addr d)) @ replicate 6 0 @ le32 tgt @ replicate 28 0\<rparr>"
proof -
  have "length (request_packet tgt d) = 30" using assms(1) by (simp add: request_packet_def)
  then show ?thesis using arp_of_the_frame(1) [OF assms(2), of "if_haddr d" "request_packet tgt d"] assms(1)
    by (simp add: request_packet_def ntoh_fields)
qed

lemma arp_of_reply:
  assumes "packet_ok arp" and "hard_len arp = 6" and "length (h_source eh) = 6" and "length (if_haddr d) = 6" and "length mac = 6"
  shows "arp_of_frame (the_frame ETH_P_ARP_SH (h_source eh) mac (reply_packet arp eh d)) =
    \<lparr>arp_id = ARP_ID, hard_type = hard_type arp, prot_type = prot_type arp, hard_len = 6, prot_len = 4, arp_op = ARPOP_REPLY,
     arp_data = h_source eh @ le32 (sin_addr (ip_addr d)) @ if_haddr d @ take 4 (ARP_TPA arp) @ replicate 28 0\<rparr>"
proof -
  have t: "length (take 4 (ARP_TPA arp)) = 4" using packet_okD [OF assms(1)] by simp
  then have "length (reply_packet arp eh d) = 30" using assms by (simp add: reply_packet_def Let_def)
  then show ?thesis using arp_of_the_frame(1) [of "h_source eh" mac "reply_packet arp eh d"] assms t
    by (simp add: reply_packet_def ntoh_fields Let_def)
qed

lemma handle_reply_client:
  assumes "cache_rep s as" and "wf_heap s" and "packet_ok arp" and "mac_by_ifindex devs (ll_ifindex src) = Some mac" and "length mac = 6"
    and "a \<in> set as" and "state (entry_of s a) = STATE_INCOMPLETE"
    and "ipaddress (entry_of s a) = mk_sockaddr_in (prot_type arp) (un32 (ARP_TPA arp))"
  shows "runs_to (handle_reply os fd eh arp src devs) s (\<lambda>r t. state (entry_of t a) = STATE_COMPLETE \<and>
    hw (entry_of t a) = reply_answer mac arp src \<and>
    Send (domain_socket (entry_of s a)) (enc_hwaddr (reply_answer mac arp src)) \<in> set (hist t))"
proof -
  let ?t = "after_reply (mk_sockaddr_in (prot_type arp) (un32 (ARP_TPA arp))) (reply_answer mac arp src) as s"
  have "entry_of ?t a = answered (mk_sockaddr_in (prot_type arp) (un32 (ARP_TPA arp))) (reply_answer mac arp src) (entry_of s a)"
    using assms(1,6) cache_rep_entry by (intro entry_of_after_reply) fastforce+
  then have "state (entry_of ?t a) = STATE_COMPLETE" "hw (entry_of ?t a) = reply_answer mac arp src"
    using assms(7,8) by (simp_all add: answered_def awaits_def)
  moreover have "Send (domain_socket (entry_of s a)) (enc_hwaddr (reply_answer mac arp src)) \<in> set (hist ?t)"
    using assms(6-8) by (auto simp: after_reply_def answer_calls_def awaits_def)
  ultimately show ?thesis using handle_reply_eq [OF assms(1-5), of os fd eh] by (simp add: runs_to_def)
qed

text \<open>C3: the request that a host broadcasts for an address reaches the host that owns the address as a packet
  its daemon accepts and answers; the answer is a packet the asking daemon accepts, and every client there that waits for
  the address is sent the owner's hardware address, which the cache keeps.\<close>

theorem arp_resolution:
  assumes A: "cache_rep s as" "wf_heap s" "wf_devices devs" "d \<in> set devs"
    and src: "mac_by_ifindex devs (ll_ifindex src) = Some mac"
    and client: "a \<in> set as" "state (entry_of s a) = STATE_INCOMPLETE" "ipaddress (entry_of s a) = mk_sockaddr_in AF_INET tgt"
    and B: "arp_inv s' as'" "wf_devices devs'" "isDestination devs' (Some tgt) = Some this"
    and src': "source_ok devs' src'" "mac_by_ifindex devs' (ll_ifindex src') = Some mac'" "\<And>h. 0 \<le> os_int os (Calloc 1 72 # h)"
    and req: "req = the_frame ETH_P_ARP_SH (replicate 8 0xFF) (if_haddr d) (request_packet tgt d)"
  shows "valid_arp (arp_of_frame req) \<and> arp_op (arp_of_frame req) = ARPOP_REQUEST \<and>
    (\<exists>rep dest. runs_to (handle_req os fd (dec_ethhdr req) (arp_of_frame req) src' devs') s'
        (\<lambda>r t'. r = 1 \<and> Sendto_ll fd rep dest \<in> set (hist t')) \<and>
      valid_arp (arp_of_frame rep) \<and> arp_op (arp_of_frame rep) = ARPOP_REPLY \<and>
      runs_to (handle_reply os fd (dec_ethhdr rep) (arp_of_frame rep) src devs) s (\<lambda>r t.
        state (entry_of t a) = STATE_COMPLETE \<and> sll_addr (hw (entry_of t a)) = if_haddr this @ [0, 0] \<and>
        Send (domain_socket (entry_of s a)) (enc_hwaddr (hw (entry_of t a))) \<in> set (hist t)))"
proof -
  have d6: "length (if_haddr d) = 6" using A(3,4) by (simp add: wf_devices_def)
  note ra = arp_of_request [OF d6, of "replicate 8 0xFF" tgt, simplified, folded req]
  let ?arp = "arp_of_frame req" and ?eh = "dec_ethhdr req"
  have pk: "packet_ok ?arp" using ra d6 by (simp add: packet_ok_def wf_arp_hdr_def)
  have eh: "h_source ?eh = if_haddr d"
    using arp_frames.sent_header(1) [of "replicate 8 0xFF" "if_haddr d"] d6 req by simp
  have tpa: "ARP_TPA ?arp = le32 tgt @ replicate 28 0" using ra d6 by (simp add: ARP_TPA_def)
  have m6: "length mac' = 6" "length mac = 6" using mac_by_ifindex_length B(2) src'(2) A(3) src by blast+
  have this6: "length (if_haddr this) = 6" "sin_addr (ip_addr this) = tgt"
    using isDestination_Some [OF B(3)] B(2) by (auto simp: wf_devices_def)
  define rep where "rep = the_frame ETH_P_ARP_SH (h_source ?eh) mac' (reply_packet ?arp ?eh this)"
  let ?dest = "the_dest ETH_P_ARP_SH (h_source ?eh) (ll_ifindex src')"
  have "\<exists>t bs x y cs. handle_req os fd ?eh ?arp src' devs' s' = Some (Inr (1, t)) \<and>
      hist t = cs @ reply_call fd ?arp ?eh this mac' (ll_ifindex src') # Out x # Out y # hist s'"
    using handle_req_runs [OF B(1,2) pk src'(1,2) _ _ _ src'(3), of ?eh this fd] eh d6 ra tpa B(3) by simp blast
  then have sent: "runs_to (handle_req os fd ?eh ?arp src' devs') s' (\<lambda>r t'. r = 1 \<and> Sendto_ll fd rep ?dest \<in> set (hist t'))"
    by (auto simp: runs_to_def reply_call_def rep_def)
  have rb: "arp_of_frame rep = \<lparr>arp_id = ARP_ID, hard_type = ARPHRD_ETHER, prot_type = PF_INET, hard_len = 6, prot_len = 4,
      arp_op = ARPOP_REPLY, arp_data = if_haddr d @ le32 tgt @ if_haddr this @ le32 tgt @ replicate 28 0\<rparr>"
    unfolding rep_def using arp_of_reply [OF pk _ _ this6(1) m6(1), of ?eh] eh d6 ra tpa this6(2) by simp
  have pk2: "packet_ok (arp_of_frame rep)" using rb d6 this6 by (simp add: packet_ok_def wf_arp_hdr_def)
  have "replicate 2 (0 :: byte) = [0, 0]" by (simp add: numeral_2_eq_2)
  then have ans: "sll_addr (reply_answer mac (arp_of_frame rep) src) = if_haddr this @ [0, 0]"
    using rb d6 this6 by (simp add: reply_answer_def ARP_THA_def Let_def)
  have ip: "ipaddress (entry_of s a) = mk_sockaddr_in (prot_type (arp_of_frame rep)) (un32 (ARP_TPA (arp_of_frame rep)))"
    using client(3) rb d6 this6 by (simp add: ARP_TPA_def)
  have "runs_to (handle_reply os fd (dec_ethhdr rep) (arp_of_frame rep) src devs) s (\<lambda>r t.
        state (entry_of t a) = STATE_COMPLETE \<and> sll_addr (hw (entry_of t a)) = if_haddr this @ [0, 0] \<and>
        Send (domain_socket (entry_of s a)) (enc_hwaddr (hw (entry_of t a))) \<in> set (hist t))"
    using handle_reply_client [OF A(1,2) pk2 src m6(2) client(1,2) ip, of os fd "dec_ethhdr rep"] ans by (auto elim: runs_to_mono)
  moreover have "valid_arp ?arp" "valid_arp (arp_of_frame rep)" "arp_op ?arp = ARPOP_REQUEST" "arp_op (arp_of_frame rep) = ARPOP_REPLY"
    by (simp_all add: ra rb valid_arp_def)
  ultimately show ?thesis using sent by blast
qed

definition owner :: hwa_info where
  "owner = \<lparr>if_name = ''eth0'', if_haddr = [2, 0, 0, 0, 0, 3], if_index = 2, ip_alias = 0, ip_addr = mk_sockaddr_in AF_INET 0x0300000A, hwa_ptr = 100, ip_addr_ptr = 200\<rparr>"

definition demo_req_frame :: "byte list" where
  "demo_req_frame = the_frame ETH_P_ARP_SH (replicate 8 0xFF) (if_haddr (hd demo_devs)) (request_packet 0x0300000A (hd demo_devs))"

theorem arp_resolution_witness:
  "valid_arp (arp_of_frame demo_req_frame) \<and> arp_op (arp_of_frame demo_req_frame) = ARPOP_REQUEST \<and>
    (\<exists>rep dest. runs_to (handle_req demo_os 5 (dec_ethhdr demo_req_frame) (arp_of_frame demo_req_frame) demo_src [owner]) idle_daemon
        (\<lambda>r t'. r = 1 \<and> Sendto_ll 5 rep dest \<in> set (hist t')) \<and>
      valid_arp (arp_of_frame rep) \<and> arp_op (arp_of_frame rep) = ARPOP_REPLY \<and>
      runs_to (handle_reply demo_os 5 (dec_ethhdr rep) (arp_of_frame rep) demo_src demo_devs) waiting_daemon (\<lambda>r t.
        state (entry_of t 10) = STATE_COMPLETE \<and> sll_addr (hw (entry_of t 10)) = if_haddr owner @ [0, 0] \<and>
        Send (domain_socket (entry_of waiting_daemon 10)) (enc_hwaddr (hw (entry_of t 10))) \<in> set (hist t)))"
proof (rule arp_resolution)
  show "cache_rep waiting_daemon [10, 20]" "wf_heap waiting_daemon" by (rule waiting_daemon_rep)+
  show "wf_devices demo_devs" "hd demo_devs \<in> set demo_devs" by (simp_all add: demo_devs_def)
  show "mac_by_ifindex demo_devs (ll_ifindex demo_src) = Some [2, 0, 0, 0, 0, 1]" by (rule demo_mac)
  show "state (entry_of waiting_daemon 10) = STATE_INCOMPLETE" "ipaddress (entry_of waiting_daemon 10) = mk_sockaddr_in AF_INET 0x0300000A"
    by (simp_all add: waiting_daemon_def entry_of_def strip_def zero_Cache_def)
  show "arp_inv idle_daemon []" by (rule arp_start_inv) (simp add: arp_start_def idle_daemon_def)
  show "wf_devices [owner]" "isDestination [owner] (Some 0x0300000A) = Some owner" "source_ok [owner] demo_src"
      "mac_by_ifindex [owner] (ll_ifindex demo_src) = Some [2, 0, 0, 0, 0, 3]"
    by (simp_all add: source_ok_def demo_src_def owner_def)
  show "0 \<le> os_int demo_os (Calloc 1 72 # h)" for h by (simp add: demo_os_def)
qed (simp_all add: demo_req_frame_def)

end
