(* ===== verification/Api.thy ===== *)
theory Api
  imports Wire Arp_Packet
begin

text \<open>
  The client side of address resolution (\<open>api.c\<close>): \<open>areq\<close> asks the ARP daemon over its Unix
  domain socket and waits at most two seconds. The result is the received structure, or \<open>None\<close>
  where the function returns 0.
\<close>

abbreviation (input) ARP_PATH :: string where
  "ARP_PATH \<equiv> ''/tmp/arp_cse533-14''"

text \<open>\<open>print_hwa\<close> reads \<open>sll_halen\<close> bytes, at least one, of the eight that \<open>sll_addr\<close> has.\<close>

definition print_hwa :: "hwaddr \<Rightarrow> ('a world_scheme, unit) prog" where
  "print_hwa hwa = bnd (pure (print_ha (sll_addr hwa) (unat (sll_halen hwa)))) (\<lambda>str. do_call (Out str))"

definition areq_call :: "os \<Rightarrow> sockaddr \<Rightarrow> u32 \<Rightarrow> ('a world_scheme, hwaddr option) prog" where
  "areq_call os ipa len =
     bnd (sys os (Socket AF_UNIX SOCK_STREAM 0)) (\<lambda>sock.
     if sock < 0 then ret None
     else
       let CLOSE_SOCK = bnd (do_call (Close sock)) (\<lambda>_. ret None)
       in bnd (sys os (Connect_un sock ARP_PATH)) (\<lambda>c.
          if c < 0 then CLOSE_SOCK
          else bnd (sys os (Send sock (enc_areq \<lparr>addr = ipa, addrlen = len\<rparr>))) (\<lambda>n.
            if n < 0 then CLOSE_SOCK
            else bnd (pure (fd_set_add sock [])) (\<lambda>rset.
              bnd (sys_select os rset (Some 2)) (\<lambda>(rv, _).
              if rv < 0 then CLOSE_SOCK
              else if rv = 0 then CLOSE_SOCK
              else bnd (sys_recv os sock 28) (\<lambda>got. case got of
                None \<Rightarrow> CLOSE_SOCK
              | Some bytes \<Rightarrow>
                  if length bytes < 28 then CLOSE_SOCK
                  else bnd (print_hwa (dec_hwaddr bytes)) (\<lambda>_.
                    bnd (do_call (Out (''>'' @ [CHR 0x0A]))) (\<lambda>_.
                    bnd (do_call (Close sock)) (\<lambda>_. ret (Some (dec_hwaddr bytes)))))))))))"

section \<open>Lemmas\<close>

lemma print_ha_ok: "n \<le> length p \<Longrightarrow> p \<noteq> [] \<Longrightarrow> \<exists>str. print_ha p n = Inr str"
  by (cases p) (auto simp: print_ha_def get_bytes_def max_def)

lemma print_hwa_runs:
  assumes "wf_hwaddr h" and "unat (sll_halen h) \<le> 8"
  shows "\<exists>x. print_hwa h = do_call (Out x)"
proof -
  have "sll_addr h \<noteq> []" using assms(1) by (auto simp: wf_hwaddr_def)
  then obtain str where "print_ha (sll_addr h) (unat (sll_halen h)) = Inr str"
    using print_ha_ok [of "unat (sll_halen h)" "sll_addr h"] assms by (auto simp: wf_hwaddr_def)
  then show ?thesis by (auto simp: print_hwa_def)
qed

lemma wf_dec_hwaddr: "length bs = 28 \<Longrightarrow> wf_hwaddr (dec_hwaddr bs)"
  by (simp add: wf_hwaddr_def dec_hwaddr_def)

text \<open>The daemon's answers have an address length of at most 8.\<close>

definition answers_ok :: "os \<Rightarrow> bool" where
  "answers_ok os \<longleftrightarrow> (\<forall>fd h bs. os_recv os (Recv fd 28 # h) = Some bs \<longrightarrow> 28 \<le> length bs \<longrightarrow>
     unat (sll_halen (dec_hwaddr (take 28 bs))) \<le> 8)"

text \<open>The calls of \<open>areq\<close> up to the one that receives the answer, the latest first.\<close>

definition areq_calls :: "sockaddr \<Rightarrow> u32 \<Rightarrow> int \<Rightarrow> call list" where
  "areq_calls ipa len sock = [Recv sock 28, Select [sock] (Some 2), Send sock (enc_areq \<lparr>addr = ipa, addrlen = len\<rparr>),
     Connect_un sock ARP_PATH, Socket AF_UNIX SOCK_STREAM 0]"

text \<open>C23: on every path \<open>areq\<close> returns, and closes the one socket it opened exactly once; when it succeeds, it has
  sent the request for the caller's address and the caller gets the structure that the 28 bytes hold that it received next.\<close>

theorem api_areq_outcome:
  assumes sock: "sock = os_int os (Socket AF_UNIX SOCK_STREAM 0 # hist s)" and fd: "0 \<le> sock \<longrightarrow> fd_ok sock"
    and ok: "answers_ok os"
  shows "runs_to (areq_call os ipa len) s (\<lambda>r t.
    closes t = (if sock < 0 then closes s else Close sock # closes s) \<and>
    (\<forall>h. r = Some h \<longrightarrow> Send sock (enc_areq \<lparr>addr = ipa, addrlen = len\<rparr>) \<in> set (hist t) \<and>
      (\<exists>bs. os_recv os (areq_calls ipa len sock @ hist s) = Some bs \<and> 28 \<le> length bs \<and> h = dec_hwaddr (take 28 bs))))"
proof (cases "sock < 0")
  case True
  then show ?thesis using sock by (simp add: areq_call_def)
next
  case False
  let ?req = "enc_areq \<lparr>addr = ipa, addrlen = len\<rparr>"
  let ?h = "[Recv sock 28, Select [sock] (Some 2), Send sock ?req, Connect_un sock ARP_PATH, Socket AF_UNIX SOCK_STREAM 0] @ hist s"
  have sfd: "fd_ok sock" "\<not> os_int os (Socket AF_UNIX SOCK_STREAM 0 # hist s) < 0" using False fd sock by auto
  show ?thesis
  proof (cases "\<exists>bs. os_recv os ?h = Some bs \<and> 28 \<le> length bs")
    case True
    then obtain bs where bs: "os_recv os ?h = Some bs" "28 \<le> length bs" by blast
    have "unat (sll_halen (dec_hwaddr (take 28 bs))) \<le> 8" using ok bs by (auto simp: answers_ok_def)
    then obtain x where "print_hwa (dec_hwaddr (take 28 bs)) = (do_call (Out x) :: ('a world_scheme, unit) prog)"
      using print_hwa_runs [OF wf_dec_hwaddr, of "take 28 bs"] bs(2) by auto
    then show ?thesis using False sfd bs sock [symmetric] by (auto simp: areq_call_def Let_def fd_set_add_def areq_calls_def)
  next
    case False
    then show ?thesis using \<open>\<not> sock < 0\<close> sfd sock [symmetric]
      by (auto simp: areq_call_def Let_def fd_set_add_def split: option.split)
  qed
qed

definition demo_hwaddr :: hwaddr where
  "demo_hwaddr = zero_hwaddr\<lparr>sll_ifindex := 2, sll_halen := 6, sll_addr := [2, 0, 0, 0, 0, 3, 0, 0]\<rparr>"

lemma demo_hwaddr_wf: "wf_hwaddr demo_hwaddr" "dec_hwaddr (enc_hwaddr demo_hwaddr) = demo_hwaddr" "length (enc_hwaddr demo_hwaddr) = 28"
proof -
  show wf: "wf_hwaddr demo_hwaddr" by (simp add: demo_hwaddr_def wf_hwaddr_def zero_hwaddr_def)
  show "dec_hwaddr (enc_hwaddr demo_hwaddr) = demo_hwaddr" "length (enc_hwaddr demo_hwaddr) = 28"
    using hwaddr_wire.dec_enc [OF wf] hwaddr_wire.enc_length [OF wf] by simp_all
qed

definition answer_os :: os where
  "answer_os = demo_os\<lparr>os_recv := (\<lambda>_. Some (enc_hwaddr demo_hwaddr))\<rparr>"

lemma answer_os_ok: "answers_ok answer_os"
  by (simp add: answers_ok_def answer_os_def demo_hwaddr_wf) (simp add: demo_hwaddr_def)

theorem api_areq_outcome_witness:
  "runs_to (areq_call answer_os (mk_sockaddr_in AF_INET 7) 16) \<lparr>hist = []\<rparr> (\<lambda>r t.
    closes t = (if (3 :: int) < 0 then closes \<lparr>hist = []\<rparr> else Close 3 # closes \<lparr>hist = []\<rparr>) \<and>
    (\<forall>h. r = Some h \<longrightarrow> Send 3 (enc_areq \<lparr>addr = mk_sockaddr_in AF_INET 7, addrlen = 16\<rparr>) \<in> set (hist t) \<and>
      (\<exists>bs. os_recv answer_os (areq_calls (mk_sockaddr_in AF_INET 7) 16 3 @ hist \<lparr>hist = []\<rparr>) = Some bs \<and> 28 \<le> length bs \<and> h = dec_hwaddr (take 28 bs))))"
  by (rule api_areq_outcome [OF _ _ answer_os_ok]) (simp_all add: answer_os_def demo_os_def fd_ok_def)

text \<open>
  A system on which the calls of a client succeed: \<open>connect\<close> returns 0, the sending calls return the number of bytes they
  were given, and the answer arrives before the two seconds are over, so \<open>select\<close> reports the socket.
\<close>

definition answering :: "os \<Rightarrow> bool" where
  "answering os \<longleftrightarrow> (\<forall>fd path h. os_int os (Connect_un fd path # h) = 0) \<and> (\<forall>fd bs h. os_int os (Send fd bs # h) = int (length bs)) \<and>
     (\<forall>fd h. os_int os (Select [fd] (Some 2) # h) = 1) \<and> (\<forall>fd bs ll h. os_int os (Sendto_ll fd bs ll # h) = int (length bs))"

lemma areq_call_ok:
  fixes s :: "'a world_scheme"
  assumes "os_int os (Socket AF_UNIX SOCK_STREAM 0 # hist s) = sock" "fd_ok sock" and "answering os"
    and bs: "os_recv os (areq_calls ipa len sock @ hist s) = Some bs" "28 \<le> length bs"
      "unat (sll_halen (dec_hwaddr (take 28 bs))) \<le> 8"
  shows "\<exists>x. areq_call os ipa len s =
    Some (Inr (Some (dec_hwaddr (take 28 bs)), logs ([Close sock, Out (''>'' @ [CHR 0x0A]), Out x] @ areq_calls ipa len sock) s))"
proof -
  obtain x where x: "print_hwa (dec_hwaddr (take 28 bs)) = (do_call (Out x) :: ('a world_scheme, unit) prog)"
    using print_hwa_runs [OF wf_dec_hwaddr, of "take 28 bs"] bs(2,3) by auto
  have pos: "os_int os (Connect_un fd path # h) = 0" "os_int os (Send fd m # h) = int (length m)" "os_int os (Select [fd] (Some 2) # h) = 1"
    for fd path m h using assms(3) by (simp_all add: answering_def)
  have "0 \<le> sock" using assms(2) by (simp add: fd_ok_def)
  then have "areq_call os ipa len s =
      Some (Inr (Some (dec_hwaddr (take 28 bs)), logs ([Close sock, Out (''>'' @ [CHR 0x0A]), Out x] @ areq_calls ipa len sock) s))"
    using assms(1,2) bs x pos
    by (simp add: areq_call_def Let_def sys_def sys_select_def sys_recv_def do_call_def fd_set_add_def areq_calls_def log_call_logs)
  then show ?thesis by blast
qed

text \<open>The address length in the answer is trusted: when it exceeds 8, printing the answer reads behind the
  eight bytes of the address, before \<open>areq\<close> has returned.\<close>

lemma api_print_overread:
  assumes "wf_hwaddr h" and "8 < unat (sll_halen h)"
  shows "print_hwa h s = Some (Inl OutOfBounds)"
  using assms by (simp add: print_hwa_def print_ha_def get_bytes_def wf_hwaddr_def)

lemma api_print_overread_witness:
  "print_hwa (zero_hwaddr\<lparr>sll_halen := 9\<rparr>) \<lparr>hist = []\<rparr> = Some (Inl OutOfBounds)"
  by (rule api_print_overread) (simp_all add: wf_hwaddr_def zero_hwaddr_def)

end
