(* ===== verification/Ip_Header.thy ===== *)
theory Ip_Header
  imports Sys
begin

text \<open>
  \<open>struct ip\<close> of the system headers, which the tour and the ping threads fill in by hand: its fields as
  they are stored (multi-byte fields hold what the program wrote, usually a byte-swapped value) and its
  twenty bytes in memory, where the first byte holds the header length and the version.
\<close>

abbreviation (input) IPVERSION :: "4 word" where "IPVERSION \<equiv> 4"
abbreviation (input) IP_DF :: u16 where "IP_DF \<equiv> 0x4000"
abbreviation (input) IP_MAXPACKET :: nat where "IP_MAXPACKET \<equiv> 65535"
abbreviation (input) IPPROTO_ICMP :: byte where "IPPROTO_ICMP \<equiv> 1"

record ip =
  ip_hl :: "4 word"
  ip_v :: "4 word"
  ip_tos :: byte
  ip_len :: u16
  ip_id :: u16
  ip_off :: u16
  ip_ttl :: byte
  ip_p :: byte
  ip_sum :: u16
  ip_src :: u32
  ip_dst :: u32

definition zero_ip :: ip where
  "zero_ip = \<lparr>ip_hl = 0, ip_v = 0, ip_tos = 0, ip_len = 0, ip_id = 0, ip_off = 0, ip_ttl = 0, ip_p = 0, ip_sum = 0,
     ip_src = 0, ip_dst = 0\<rparr>"

definition enc_ip :: "ip \<Rightarrow> byte list" where
  "enc_ip h = [ucast (ip_hl h) OR push_bit 4 (ucast (ip_v h)), ip_tos h] @ le16 (ip_len h) @ le16 (ip_id h) @ le16 (ip_off h) @
     [ip_ttl h, ip_p h] @ le16 (ip_sum h) @ le32 (ip_src h) @ le32 (ip_dst h)"

definition dec_ip :: "byte list \<Rightarrow> ip" where
  "dec_ip bs = \<lparr>ip_hl = ucast (bs ! 0), ip_v = ucast (drop_bit 4 (bs ! 0)), ip_tos = bs ! 1, ip_len = un16 (drop 2 bs),
     ip_id = un16 (drop 4 bs), ip_off = un16 (drop 6 bs), ip_ttl = bs ! 8, ip_p = bs ! 9, ip_sum = un16 (drop 10 bs),
     ip_src = un32 (drop 12 bs), ip_dst = un32 (drop 16 bs)\<rparr>"

lemma nibbles:
  fixes a b :: "4 word"
  shows "ucast (ucast a OR push_bit 4 (ucast b) :: byte) = a" and "ucast (drop_bit 4 (ucast a OR push_bit 4 (ucast b) :: byte)) = b"
proof -
  have [simp]: "\<not> bit a (4 + n)" for n using bit_imp_le_length [of a "4 + n"] by auto
  show "ucast (ucast a OR push_bit 4 (ucast b) :: byte) = a" "ucast (drop_bit 4 (ucast a OR push_bit 4 (ucast b) :: byte)) = b"
    by (auto intro!: bit_word_eqI simp: bit_simps)
qed

lemma nibble_v [simp]: "ucast (drop_bit 4 (ucast a) OR drop_bit 4 (push_bit 4 (ucast b)) :: byte) = (b :: 4 word)" for a :: "4 word"
  using nibbles(2) [of a b] by (simp add: drop_bit_or)

interpretation ip_wire: wire_format enc_ip dec_ip "\<lambda>_. True" 20
proof
  fix x r
  show "length (enc_ip x) = 20" by (simp add: enc_ip_def)
  show "dec_ip (enc_ip x @ r) = x" by (simp add: enc_ip_def dec_ip_def nth_append nibbles)
qed

end
