(* ===== verification/Checksum.thy ===== *)
theory Checksum
  imports Prelude
begin

text \<open>
  The Internet checksum \<open>in_cksum\<close> of \<open>ping.c\<close>: a 32-bit sum of the 16-bit words of a buffer, an odd
  byte at the end taken as the low byte of a word, the carries added back twice, the result
  complemented. Proved equal to the ones' complement sum of RFC 1071 for every buffer whose sum
  fits 32 bits, and self-checking: with the checksum stored in the buffer it comes out as 0.
\<close>

text \<open>The two steps that read memory: the loop over the words and the odd byte.\<close>

fun sum_words :: "u32 \<Rightarrow> byte list \<Rightarrow> u32" where
  "sum_words acc (a # b # w) = sum_words (acc + ucast (un16 [a, b])) w"
| "sum_words acc [a] = acc + ucast (ucast a :: u16)"
| "sum_words acc [] = acc"

definition fold_carries :: "u32 \<Rightarrow> u16" where
  "fold_carries acc =
     (let acc = drop_bit 16 acc + (acc AND 0xffff);
          acc = acc + drop_bit 16 acc
      in ucast (NOT acc))"

definition in_cksum :: "byte list \<Rightarrow> nat \<Rightarrow> stop + u16" where
  "in_cksum addr len = sbnd (get_bytes addr 0 len) (\<lambda>bs. Inr (fold_carries (sum_words 0 bs)))"

section \<open>The ones' complement sum\<close>

fun word_sum :: "byte list \<Rightarrow> nat" where
  "word_sum (a # b # w) = unat (un16 [a, b]) + word_sum w"
| "word_sum [a] = unat a"
| "word_sum [] = 0"

definition ones_fold :: "nat \<Rightarrow> nat" where
  "ones_fold n = (if n = 0 then 0 else (n - 1) mod 65535 + 1)"

lemma unat_widen:
  fixes w :: "'a :: len word"
  assumes "LENGTH('a) \<le> LENGTH('b :: len)"
  shows "unat (ucast w :: 'b word) = unat w"
proof -
  have "unat w < 2 ^ LENGTH('a)" by (rule unsigned_less)
  also have "(2 :: nat) ^ LENGTH('a) \<le> 2 ^ LENGTH('b)" using assms by (simp add: power_increasing)
  finally show ?thesis by (simp add: unsigned_ucast_eq take_bit_nat_eq_self)
qed

lemma word_sum_bound: "word_sum bs \<le> 65535 * ((length bs + 1) div 2)"
proof (induction bs rule: word_sum.induct)
  case (1 a b w)
  have "unat (un16 [a, b]) < 2 ^ 16" using unsigned_less [of "un16 [a, b]"] by simp
  then show ?case using 1 by simp
next
  case (2 a)
  have "unat a < 2 ^ 8" using unsigned_less [of a] by simp
  then show ?case by simp
qed simp

lemma sum_words_unat:
  "unat acc + word_sum bs < 2 ^ 32 \<Longrightarrow> unat (sum_words acc bs) = unat acc + word_sum bs"
proof (induction acc bs rule: sum_words.induct)
  case (1 acc a b w)
  let ?x = "ucast (un16 [a, b]) :: u32"
  have x: "unat ?x = unat (un16 [a, b])" by (rule unat_widen) simp
  then have "unat (acc + ?x) = unat acc + unat (un16 [a, b])" using 1(2) by (simp add: unat_word_ariths del: un16.simps)
  then show ?case using 1 by simp
next
  case (2 acc a)
  moreover have "unat (ucast (ucast a :: u16) :: u32) = unat a"
    using unat_widen [of a, where 'b = 16] unat_widen [of "ucast a :: u16", where 'b = 32] by simp
  ultimately show ?case by (simp add: unat_word_ariths)
qed simp

lemma unat_not: "unat (NOT z) = 65535 - unat z" for z :: u16
proof -
  have "NOT z = - 1 - z" by (simp add: not_eq_complement)
  moreover have "unat (- 1 - z) = unat (- 1 :: u16) - unat z" by (rule unat_sub) simp
  moreover have "unat (- 1 :: u16) = 65535" by (simp add: unsigned_minus_1_eq_mask mask_eq_exp_minus_1)
  ultimately show ?thesis by simp
qed

lemma low_half: "x AND 0xffff = take_bit 16 x" for x :: u32
  by (simp add: take_bit_eq_mask mask_eq_exp_minus_1)

lemma ones_fold_split:
  assumes "0 < h + l"
  shows "ones_fold (65536 * h + l) = (h + l - 1) mod 65535 + 1"
proof -
  have "65536 * h + l - 1 = 65535 * h + (h + l - 1)" using assms by simp
  then have "(65536 * h + l - 1) mod 65535 = (h + l - 1) mod 65535" by (simp only: mod_mult_self4)
  then show ?thesis using assms by (simp only: ones_fold_def) auto
qed

lemma ones_fold_carries:
  fixes h l :: nat
  assumes "h \<le> 65535" and "l \<le> 65535"
  shows "(h + l + (h + l) div 65536) mod 65536 = ones_fold (65536 * h + l)"
proof -
  consider "h + l = 0" | "0 < h + l" "h + l < 65536" | "65536 \<le> h + l" by linarith
  then show ?thesis
  proof cases
    case 2
    then show ?thesis using ones_fold_split [OF 2(1)] by simp
  next
    case 3
    then have "(h + l) div 65536 = 1" using assms by (simp add: div_nat_eqI)
    moreover have "(h + l - 1) mod 65535 = h + l - 65536" using 3 assms by (simp add: mod_if)
    moreover have "h + l + 1 = (h + l - 65535) + 65536" using 3 by simp
    then have "(h + l + 1) mod 65536 = h + l - 65535" using 3 assms by (simp only: mod_add_self2) simp
    moreover have "0 < h + l" using 3 by linarith
    ultimately show ?thesis using 3 ones_fold_split [of h l] by simp
  qed (simp add: ones_fold_def)
qed

lemma fold_carries_spec: "unat (fold_carries x) = 65535 - ones_fold (unat x)"
proof -
  define h l where "h = unat x div 65536" and "l = unat x mod 65536"
  define s where "s = h + l"
  have x: "unat x < 65536 * 65536" using unsigned_less [of x] by simp
  have b: "h \<le> 65535" "l \<le> 65535" "unat x = 65536 * h + l"
    using less_mult_imp_div_less [OF x] by (simp_all add: h_def l_def less_Suc_eq_le [symmetric])
  have c: "(s + s div 65536) mod 65536 = ones_fold (unat x)" "s + s div 65536 < 2 ^ 32" "s < 2 ^ 32"
    using ones_fold_carries [OF b(1,2)] b by (simp_all add: s_def)
  have "unat (drop_bit 16 x + (x AND 0xffff)) = s"
    using c(3) by (simp add: low_half unat_word_ariths unsigned_drop_bit_eq unsigned_take_bit_eq drop_bit_eq_div take_bit_eq_mod s_def h_def l_def)
  then have "unat (drop_bit 16 x + (x AND 0xffff) + drop_bit 16 (drop_bit 16 x + (x AND 0xffff))) = s + s div 65536"
    using c(2) by (simp add: unat_word_ariths unsigned_drop_bit_eq drop_bit_eq_div)
  then have "unat (ucast (drop_bit 16 x + (x AND 0xffff) + drop_bit 16 (drop_bit 16 x + (x AND 0xffff))) :: u16) = ones_fold (unat x)"
    using c(1) by (simp add: unsigned_ucast_eq take_bit_eq_mod)
  moreover have "ucast (NOT y) = NOT (ucast y :: u16)" for y :: u32
    by (auto intro!: bit_word_eqI simp: bit_simps)
  ultimately show ?thesis by (simp add: fold_carries_def Let_def unat_not)
qed

lemma in_cksum_eq:
  assumes "length bs \<le> 131072"
  shows "in_cksum bs (length bs) = Inr (fold_carries (sum_words 0 bs))"
    and "unat (fold_carries (sum_words 0 bs)) = 65535 - ones_fold (word_sum bs)"
proof -
  have "word_sum bs \<le> 65535 * ((length bs + 1) div 2)" by (rule word_sum_bound)
  also have "\<dots> \<le> 65535 * 65536" using assms by (intro mult_left_mono) auto
  finally have "word_sum bs < 2 ^ 32" by simp
  then show "unat (fold_carries (sum_words 0 bs)) = 65535 - ones_fold (word_sum bs)"
    using sum_words_unat [of 0 bs] by (simp add: fold_carries_spec)
  show "in_cksum bs (length bs) = Inr (fold_carries (sum_words 0 bs))" by (simp add: in_cksum_def get_bytes_def)
qed

lemma word_sum_append: "even (length pre) \<Longrightarrow> word_sum (pre @ r) = word_sum pre + word_sum r"
  by (induction pre rule: word_sum.induct) auto

lemma word_sum_le16: "word_sum (le16 c @ post) = unat c + word_sum post"
proof -
  obtain a b where ab: "le16 c = [a, b]" by (simp add: le16_def)
  then have "un16 [a, b] = c" using un16_le16 [of c] by simp
  with ab show ?thesis by (simp del: un16.simps)
qed

lemma ones_fold_complement: "ones_fold (n + (65535 - ones_fold n)) = 65535"
proof (cases "n = 0")
  case False
  let ?q = "(n - 1) div 65535" and ?r = "(n - 1) mod 65535"
  have "n = ?q * 65535 + ?r + 1" using False div_mult_mod_eq [of "n - 1" 65535] by simp
  moreover have "?r \<le> 65534" using mod_less_divisor [of 65535 "n - 1"] by simp
  ultimately have "n + (65535 - (?r + 1)) - 1 = ?q * 65535 + 65534" by linarith
  then have "(n + (65535 - (?r + 1)) - 1) mod 65535 = 65534" by (simp only: mod_mult_self3) simp
  then show ?thesis using False by (simp add: ones_fold_def)
qed (simp add: ones_fold_def)

lemma cksum_stored:
  assumes "even (length pre)" and "length (pre @ post) \<le> 131000" and "in_cksum (pre @ [0, 0] @ post) n = Inr c"
    and "n = length pre + 2 + length post"
  shows "in_cksum (pre @ le16 c @ post) n = Inr 0"
proof -
  let ?a = "pre @ [0, 0] @ post" and ?b = "pre @ le16 c @ post"
  let ?n = "word_sum pre + word_sum post"
  have len: "length ?a = n" "length ?b = n" "n \<le> 131072" using assms by simp_all
  have "word_sum ?a = ?n" using assms(1) by (simp add: word_sum_append)
  then have c: "unat c = 65535 - ones_fold ?n"
    using in_cksum_eq [of ?a] assms(3) len by auto
  have "word_sum ?b = ?n + unat c" using assms(1) by (simp add: word_sum_append word_sum_le16)
  then have "ones_fold (word_sum ?b) = 65535" using c ones_fold_complement by simp
  then have "unat (fold_carries (sum_words 0 ?b)) = 0" using in_cksum_eq(2) [of ?b] len by simp
  then have "fold_carries (sum_words 0 ?b) = 0" by (simp only: unat_eq_zero)
  then show ?thesis using in_cksum_eq(1) [of ?b] len by simp
qed

section \<open>What the checksum promises\<close>

text \<open>C5: for every buffer of at most 131072 bytes the 32-bit accumulator does not overflow, and \<open>in_cksum\<close>
  is the complement of the ones' complement sum of its 16-bit words (the sum reduced modulo 65535 to a value that is 0 only
  for a zero buffer).\<close>

theorem cksum_ones_complement:
  assumes "length bs \<le> 131072"
  shows "\<exists>c. in_cksum bs (length bs) = Inr c \<and>
    unat c = 65535 - (if word_sum bs = 0 then 0 else (word_sum bs - 1) mod 65535 + 1)"
  using in_cksum_eq [OF assms] by (auto simp: ones_fold_def)

theorem cksum_ones_complement_witness:
  "\<exists>c. in_cksum [1, 2, 3] (length [1, 2, 3 :: byte]) = Inr c \<and>
    unat c = 65535 - (if word_sum [1, 2, 3] = 0 then 0 else (word_sum [1, 2, 3] - 1) mod 65535 + 1)"
  by (rule cksum_ones_complement) simp

text \<open>C22: a receiver that recomputes the checksum over a buffer in which the sender stored it, at an even offset
  that held zero when the checksum was taken, gets 0.\<close>

theorem cksum_self_check:
  assumes "even (length pre)" and "length (pre @ post) \<le> 131000" and "n = length pre + 2 + length post"
  shows "\<exists>c. in_cksum (pre @ [0, 0] @ post) n = Inr c \<and> in_cksum (pre @ le16 c @ post) n = Inr 0"
  using cksum_stored [OF assms(1,2) _ assms(3)] in_cksum_eq(1) [of "pre @ [0, 0] @ post"] assms(2,3) by auto

theorem cksum_self_check_witness:
  "\<exists>c. in_cksum ([8, 0] @ [0, 0] @ [1, 2, 3]) 7 = Inr c \<and> in_cksum ([8, 0] @ le16 c @ [1, 2, 3]) 7 = Inr 0"
  by (rule cksum_self_check) simp_all

end
