(* ===== verification/Ping.thy ===== *)
theory Ping
  imports Api Ip_Header Checksum
begin

text \<open>
  The ping threads of the tour application (\<open>ping.c\<close>): the thread that sends an echo request to one
  target every second, resolving the target's hardware address through the ARP daemon each time, the
  thread that receives echo replies, and the list of sending threads. A thread is the program it runs;
  its cancellation from outside happens between its steps and is not modelled, the clean-up handler that
  closes its socket is.
\<close>

section \<open>Packets\<close>

abbreviation (input) ICMP_ECHO :: byte where "ICMP_ECHO \<equiv> 8"
abbreviation (input) ICMP_ECHOREPLY :: byte where "ICMP_ECHOREPLY \<equiv> 0"
abbreviation (input) ICMP_MINLEN :: nat where "ICMP_MINLEN \<equiv> 8"
abbreviation (input) ICMP_ID :: u16 where "ICMP_ID \<equiv> 0xDEAC"

definition ICMP_ECHO_DATA :: "byte list" where
  "ICMP_ECHO_DATA = string_bytes ''PINGPONG''"

text \<open>\<open>struct icmp\<close> of an echo message.\<close>

definition icmp_echo :: "byte \<Rightarrow> u16 \<Rightarrow> u16 \<Rightarrow> u16 \<Rightarrow> byte list \<Rightarrow> byte list" where
  "icmp_echo icmp_type icmp_cksum icmp_id icmp_seq icmp_data =
     [icmp_type, 0] @ le16 icmp_cksum @ le16 icmp_id @ le16 icmp_seq @ icmp_data"

definition ping_ip :: "u32 \<Rightarrow> u32 \<Rightarrow> int \<Rightarrow> ip" where
  "ping_ip hostip tgtip self = zero_ip\<lparr>ip_src := hostip, ip_dst := tgtip, ip_p := IPPROTO_ICMP, ip_off := htons IP_DF,
     ip_id := htons (word_of_int self), ip_hl := 5, ip_len := htons 36, ip_v := IPVERSION, ip_ttl := 10\<rparr>"

definition ping_header :: "u32 \<Rightarrow> u32 \<Rightarrow> int \<Rightarrow> stop + byte list" where
  "ping_header hostip tgtip self =
     (let iph = ping_ip hostip tgtip self
      in sbnd (in_cksum (enc_ip iph) 20) (\<lambda>sm. Inr (enc_ip (iph\<lparr>ip_sum := sm\<rparr>))))"

definition echo_request :: "u16 \<Rightarrow> stop + byte list" where
  "echo_request seq =
     sbnd (in_cksum (icmp_echo ICMP_ECHO 0 (htons ICMP_ID) (htons seq) ICMP_ECHO_DATA) 16)
       (\<lambda>c. Inr (icmp_echo ICMP_ECHO c (htons ICMP_ID) (htons seq) ICMP_ECHO_DATA))"

section \<open>Threads\<close>

definition close_sock :: "int \<Rightarrow> ('a world_scheme, unit) prog" where
  "close_sock sock = (if sock \<ge> 0 then do_call (Close sock) else ret ())"

definition ping_send_frame ::
  "os \<Rightarrow> int \<Rightarrow> byte list \<Rightarrow> int \<Rightarrow> byte list option \<Rightarrow> byte list option \<Rightarrow> u32 \<Rightarrow> ('a world_scheme, int) prog" where
  "ping_send_frame = send_frame_as ETH_P_IP"

partial_function (option) ping_send_loop ::
  "os \<Rightarrow> int \<Rightarrow> byte list \<Rightarrow> u32 \<Rightarrow> u16 \<Rightarrow> 'a world_scheme \<Rightarrow> (stop + unit \<times> 'a world_scheme) option" where
  "ping_send_loop os sock iph tgtip seq s =
     bnd (pure (echo_request seq)) (\<lambda>icmph s.
       bnd (areq_call os (mk_sockaddr_in AF_INET tgtip) 16) (\<lambda>dst s. case dst of
         None \<Rightarrow> ret () s
       | Some dst \<Rightarrow>
           bnd (ping_send_frame os sock (iph @ icmph) 36 (Some (sll_addr dst)) (Some (sll_ifaddr dst)) (sll_ifindex dst)) (\<lambda>sent s.
             if sent = 0 then ret () s
             else bnd (do_call (Sleep 1)) (\<lambda>_ s. ping_send_loop os sock iph tgtip (seq + 1) s) s) s) s) s"

definition run_ping_send :: "os \<Rightarrow> u32 \<Rightarrow> u32 \<Rightarrow> int \<Rightarrow> ('a world_scheme, unit) prog" where
  "run_ping_send os hostip tgtip self =
     bnd (sys os (Socket (uint AF_PACKET) SOCK_RAW (uint (htons ETH_P_IP)))) (\<lambda>sock.
     if sock < 0 then close_sock sock
     else bnd (pure (ping_header hostip tgtip self)) (\<lambda>iph.
       bnd (ping_send_loop os sock iph tgtip 0) (\<lambda>_. close_sock sock)))"

definition inet_ntoa :: "u32 \<Rightarrow> string" where
  "inet_ntoa a = (case map (\<lambda>b. dec_str (unat b)) (le32 a) of
     [p, q, r, t] \<Rightarrow> p @ ''.'' @ q @ ''.'' @ r @ ''.'' @ t | _ \<Rightarrow> [])"

definition sys_hostbyaddr :: "os \<Rightarrow> u32 \<Rightarrow> ('a world_scheme, string option) prog" where
  "sys_hostbyaddr os a s = ret (os_hostbyaddr os (Gethostbyaddr a # hist s)) (log_call (Gethostbyaddr a) s)"

text \<open>The checks on a received packet, and one turn of the receiving thread; the result says whether it goes on.\<close>

definition ping_check :: "os \<Rightarrow> string \<Rightarrow> ip \<Rightarrow> nat \<Rightarrow> byte list \<Rightarrow> byte list \<Rightarrow> ('a world_scheme, bool) prog" where
  "ping_check os host iph iplen icmph bs =
     (if length bs < iplen + ICMP_MINLEN then ret True
      else if icmph ! 0 \<noteq> ICMP_ECHOREPLY then ret True
      else if un16 (drop 4 icmph) \<noteq> htons ICMP_ID then ret True
      else bnd (pure (in_cksum icmph (length bs - iplen))) (\<lambda>c.
        if c \<noteq> 0 then ret True
        else bnd (sys_hostbyaddr os (ip_src iph)) (\<lambda>he.
          bnd (pure (c_string (ETH_FRAME_LEN - iplen - 8) (drop (iplen + 8) bs))) (\<lambda>str.
          bnd (do_call (Out (''Node '' @ host @ ''. Received ping from: '' @
            (case he of None \<Rightarrow> inet_ntoa (ip_src iph) | Some name \<Rightarrow> name) @ '', data='' @ str @ [CHR 0x0A]))) (\<lambda>_.
          ret True)))))"

definition ping_recv_step :: "os \<Rightarrow> string \<Rightarrow> int \<Rightarrow> ('a world_scheme, bool) prog" where
  "ping_recv_step os host pg_sock =
     bnd (sys_recvfrom_in os pg_sock ETH_FRAME_LEN) (\<lambda>(got, src). case got of
       None \<Rightarrow> ret False
     | Some bs \<Rightarrow>
         let packet = bs @ replicate (ETH_FRAME_LEN - length bs) 0;
             iph = dec_ip packet;
             iplen = unat (ip_hl iph) * 4
         in ping_check os host iph iplen (drop iplen packet) bs)"

partial_function (option) ping_recv_loop ::
  "os \<Rightarrow> string \<Rightarrow> int \<Rightarrow> 'a world_scheme \<Rightarrow> (stop + unit \<times> 'a world_scheme) option" where
  "ping_recv_loop os host pg_sock s =
     bnd (ping_recv_step os host pg_sock) (\<lambda>goes_on s. if goes_on then ping_recv_loop os host pg_sock s else ret () s) s"

definition run_ping_recv :: "os \<Rightarrow> string \<Rightarrow> ('a world_scheme, unit) prog" where
  "run_ping_recv os host =
     bnd (sys os (Socket (uint AF_INET) SOCK_RAW (uint IPPROTO_ICMP))) (\<lambda>pg_sock.
     if pg_sock < 0 then close_sock pg_sock
     else bnd (ping_recv_loop os host pg_sock) (\<lambda>_. close_sock pg_sock))"

section \<open>The list of sending threads\<close>

text \<open>\<open>pingt_ptr\<close> is the address of the allocated structure, which is what \<open>free\<close> gets.\<close>

record pingt =
  tgtip :: u32
  tid :: int
  pingt_ptr :: int

definition create_pingt :: "os \<Rightarrow> pingt list \<Rightarrow> u32 \<Rightarrow> ('a world_scheme, int \<times> pingt list) prog" where
  "create_pingt os head ip =
     (if \<exists>cur \<in> set head. tgtip cur = ip then ret (1, head)
      else bnd (sys os (Calloc 1 80)) (\<lambda>p.
        if p < 0 then ret (0, head)
        else bnd (sys os (Thread_create ip)) (\<lambda>err s.
          if err \<noteq> 0 then bnd (do_call (Free_ptr p)) (\<lambda>_. ret (0, head)) s
          else ret (1, \<lparr>tgtip = ip, tid = os_tid os (hist s), pingt_ptr = p\<rparr> # head) s)))"

fun cancel_all :: "pingt list \<Rightarrow> ('a world_scheme, unit) prog" where
  "cancel_all [] = ret ()"
| "cancel_all (cur # rest) = bnd (do_call (Thread_cancel (tid cur))) (\<lambda>_. cancel_all rest)"

fun join_all :: "os \<Rightarrow> int \<Rightarrow> pingt list \<Rightarrow> ('a world_scheme, int) prog" where
  "join_all os status [] = ret status"
| "join_all os status (cur # rest) =
     bnd (sys os (Thread_join (tid cur))) (\<lambda>err. if err \<noteq> 0 then join_all os 1 rest else join_all os status rest)"

fun free_all :: "pingt list \<Rightarrow> ('a world_scheme, pingt list) prog" where
  "free_all [] = ret []"
| "free_all (cur # rest) = bnd (do_call (Free_ptr (pingt_ptr cur))) (\<lambda>_. free_all rest)"

definition destroy_pingt :: "os \<Rightarrow> pingt list \<Rightarrow> ('a world_scheme, int \<times> pingt list) prog" where
  "destroy_pingt os head =
     bnd (cancel_all head) (\<lambda>_.
     bnd (join_all os 1 head) (\<lambda>status.
     bnd (free_all head) (\<lambda>head.
     ret (status, head))))"

definition print_mac :: "byte list \<Rightarrow> ('a world_scheme, unit) prog" where
  "print_mac mac = bnd (pure (print_ha mac 6)) (\<lambda>str. do_call (Out str))"

section \<open>The packets are valid\<close>

interpretation ping_frames: frame_sender ping_send_frame ETH_P_IP
  unfolding ping_send_frame_def
  by unfold_locales (simp add: send_frame_as_ok, simp add: send_frame_as_def, rule send_frame_as_null)

lemma length_ICMP_ECHO_DATA [simp]: "length ICMP_ECHO_DATA = 8"
  by (simp add: ICMP_ECHO_DATA_def string_bytes_def)

lemma icmp_echo_cksum:
  assumes "length d \<le> 1000"
  shows "\<exists>c. in_cksum (icmp_echo ty 0 i q d) (8 + length d) = Inr c \<and> in_cksum (icmp_echo ty c i q d) (8 + length d) = Inr 0"
proof -
  have z: "le16 0 = [0, 0]" by (simp add: le16_def)
  let ?m = "[ty, 0] @ [0, 0] @ le16 i @ le16 q @ d"
  have "length ?m = 8 + length d" by simp
  moreover from this have "in_cksum ?m (length ?m) = Inr (fold_carries (sum_words 0 ?m))" using assms by (intro in_cksum_eq) simp
  ultimately obtain c where "in_cksum ?m (8 + length d) = Inr c" by metis
  moreover from cksum_stored [OF _ _ this] assms have "in_cksum ([ty, 0] @ le16 c @ le16 i @ le16 q @ d) (8 + length d) = Inr 0" by simp
  ultimately show ?thesis by (auto simp: icmp_echo_def z)
qed

lemma echo_request_ok:
  "\<exists>icmph. echo_request seq = Inr icmph \<and> length icmph = 16 \<and> in_cksum icmph 16 = Inr 0 \<and>
    (\<exists>c. icmph = icmp_echo ICMP_ECHO c (htons ICMP_ID) (htons seq) ICMP_ECHO_DATA)"
proof -
  obtain c where "in_cksum (icmp_echo ICMP_ECHO 0 (htons ICMP_ID) (htons seq) ICMP_ECHO_DATA) 16 = Inr c"
      "in_cksum (icmp_echo ICMP_ECHO c (htons ICMP_ID) (htons seq) ICMP_ECHO_DATA) 16 = Inr 0"
    using icmp_echo_cksum [of ICMP_ECHO_DATA ICMP_ECHO "htons ICMP_ID" "htons seq"] by auto
  then show ?thesis by (auto simp: echo_request_def icmp_echo_def)
qed

lemma ping_header_ok:
  "\<exists>sm. ping_header hostip tgt self = Inr (enc_ip ((ping_ip hostip tgt self)\<lparr>ip_sum := sm\<rparr>)) \<and>
    in_cksum (enc_ip ((ping_ip hostip tgt self)\<lparr>ip_sum := sm\<rparr>)) 20 = Inr 0"
proof -
  let ?h = "ping_ip hostip tgt self"
  define pre post where "pre = take 10 (enc_ip ?h)" and "post = drop 12 (enc_ip ?h)"
  have e: "enc_ip (?h\<lparr>ip_sum := sm\<rparr>) = pre @ le16 sm @ post" for sm
    by (simp add: pre_def post_def enc_ip_def)
  have "?h\<lparr>ip_sum := 0\<rparr> = ?h" by (simp add: ping_ip_def zero_ip_def)
  then have z: "enc_ip ?h = pre @ [0, 0] @ post" using e [of 0] by (simp add: le16_def)
  have len: "length pre = 10" "length post = 8" by (simp_all add: pre_def post_def ip_wire.enc_length)
  have "in_cksum (enc_ip ?h) (length (enc_ip ?h)) = Inr (fold_carries (sum_words 0 (enc_ip ?h)))"
    by (rule in_cksum_eq) (simp add: ip_wire.enc_length)
  then obtain sm where sm: "in_cksum (enc_ip ?h) 20 = Inr sm" by (simp only: ip_wire.enc_length)
  moreover have "in_cksum (pre @ le16 sm @ post) 20 = Inr 0"
    by (rule cksum_stored) (use len sm in \<open>simp_all only: z\<close>, simp_all add: len)
  moreover have "ping_header hostip tgt self = Inr (enc_ip (?h\<lparr>ip_sum := sm\<rparr>))" using sm by (simp add: ping_header_def)
  ultimately show ?thesis unfolding e [symmetric] by blast
qed

text \<open>C20: every echo request is a packet of 36 bytes whose IP header carries the addresses of the two hosts and its
  true length, and whose IP and ICMP checksums verify.\<close>

theorem ping_packet_valid:
  "\<exists>iph icmph. ping_header hostip tgt self = Inr iph \<and> echo_request seq = Inr icmph \<and> length (iph @ icmph) = 36 \<and>
    in_cksum iph 20 = Inr 0 \<and> in_cksum icmph 16 = Inr 0 \<and>
    ip_src (dec_ip iph) = hostip \<and> ip_dst (dec_ip iph) = tgt \<and> ip_p (dec_ip iph) = IPPROTO_ICMP \<and>
    ip_v (dec_ip iph) = IPVERSION \<and> 4 * unat (ip_hl (dec_ip iph)) = length iph \<and>
    unat (ntohs (ip_len (dec_ip iph))) = length (iph @ icmph)"
proof -
  obtain sm where h: "ping_header hostip tgt self = Inr (enc_ip ((ping_ip hostip tgt self)\<lparr>ip_sum := sm\<rparr>))"
      "in_cksum (enc_ip ((ping_ip hostip tgt self)\<lparr>ip_sum := sm\<rparr>)) 20 = Inr 0" using ping_header_ok by blast
  obtain icmph where i: "echo_request seq = Inr icmph" "length icmph = 16" "in_cksum icmph 16 = Inr 0" using echo_request_ok by blast
  show ?thesis using h i by (simp add: ip_wire.dec_enc ip_wire.enc_length ping_ip_def)
qed

section \<open>Receiving\<close>

lemma c_string_ok: "length bs < cap \<Longrightarrow> \<exists>str. c_string cap bs = Inr str"
  by (simp add: c_string_def)

lemma ping_recv_step_Some:
  assumes "os_recv os (Recvfrom fd ETH_FRAME_LEN # hist s) = Some bs" and "length bs \<le> ETH_FRAME_LEN"
    and "packet = bs @ replicate (ETH_FRAME_LEN - length bs) 0" and "iph = dec_ip packet" and "iplen = unat (ip_hl iph) * 4"
    and "icmph = drop iplen packet"
  shows "ping_recv_step os host fd s = ping_check os host iph iplen icmph bs (log_call (Recvfrom fd ETH_FRAME_LEN) s)"
  using assms(1,2) unfolding assms(3-6) by (simp add: ping_recv_step_def sys_recvfrom_in_def Let_def)

text \<open>C21: whatever arrives, as long as it is shorter than the receive buffer, a turn of the receiving thread stays
  inside the buffer, also for header lengths that the packet only claims to have; it stops only when \<open>recvfrom\<close> fails.\<close>

theorem ping_recv_safe:
  assumes "\<And>bs. os_recv os (Recvfrom fd ETH_FRAME_LEN # hist s) = Some bs \<Longrightarrow> length bs < ETH_FRAME_LEN"
  shows "runs_to (ping_recv_step os host fd) s (\<lambda>r t. r \<longleftrightarrow> os_recv os (Recvfrom fd ETH_FRAME_LEN # hist s) \<noteq> None)"
proof (cases "os_recv os (Recvfrom fd ETH_FRAME_LEN # hist s)")
  case None
  then show ?thesis by (auto simp: ping_recv_step_def sys_recvfrom_in_def runs_to_def intro: exI [of _ False])
next
  case (Some bs)
  have len: "length bs < 1514" using assms [OF Some] .
  define packet where "packet = bs @ replicate (1514 - length bs) (0 :: byte)"
  define iph where "iph = dec_ip packet"
  define iplen where "iplen = unat (ip_hl iph) * 4"
  define icmph where "icmph = drop iplen packet"
  have pl: "length packet = 1514" using len by (simp add: packet_def)
  have step: "ping_recv_step os host fd s = ping_check os host iph iplen icmph bs (log_call (Recvfrom fd ETH_FRAME_LEN) s)"
    using ping_recv_step_Some [OF Some _ packet_def iph_def iplen_def icmph_def] len by simp
  have "\<exists>c. in_cksum icmph (length bs - iplen) = Inr c" using pl len by (simp add: in_cksum_def get_bytes_def icmph_def)
  moreover have "\<exists>str. c_string (1514 - iplen - 8) (drop (iplen + 8) bs) = Inr str" if "\<not> length bs < iplen + 8"
    using that len by (intro c_string_ok) simp
  ultimately show ?thesis unfolding runs_to_def step ping_check_def using Some
    by (auto simp: sys_hostbyaddr_def bnd_def do_call_def ex_bool_eq)
qed

theorem ping_recv_safe_witness:
  "runs_to (ping_recv_step (demo_os\<lparr>os_recv := (\<lambda>_. Some [0xFF, 1, 2])\<rparr>) ''vm1'' 5) \<lparr>hist = []\<rparr>
    (\<lambda>r t. r \<longleftrightarrow> os_recv (demo_os\<lparr>os_recv := (\<lambda>_. Some [0xFF, 1, 2])\<rparr>) (Recvfrom 5 ETH_FRAME_LEN # hist \<lparr>hist = []\<rparr>) \<noteq> None)"
  by (rule ping_recv_safe) (auto simp: demo_os_def)

text \<open>C24: the reply to one of the application's echo requests (the request with the reply type and a checksum
  over the whole message, behind an IP header without options) is recognised and reported once, with the host it came from
  (its name, or its address when it has none) and the data of the request.\<close>

theorem ping_reply_accepted:
  assumes got: "os_recv os (Recvfrom fd ETH_FRAME_LEN # hist s) = Some (enc_ip iph @ reply)" and hl: "ip_hl iph = 5"
    and reply: "reply = icmp_echo ICMP_ECHOREPLY c (htons ICMP_ID) seq ICMP_ECHO_DATA"
    and c: "in_cksum (icmp_echo ICMP_ECHOREPLY 0 (htons ICMP_ID) seq ICMP_ECHO_DATA) 16 = Inr c"
    and name: "name = (case os_hostbyaddr os (Gethostbyaddr (ip_src iph) # Recvfrom fd ETH_FRAME_LEN # hist s) of
      None \<Rightarrow> inet_ntoa (ip_src iph) | Some n \<Rightarrow> n)"
  shows "ping_recv_step os host fd s = Some (Inr (True, logs
    [Out (''Node '' @ host @ ''. Received ping from: '' @ name @ '', data=PINGPONG'' @ [CHR 0x0A]),
     Gethostbyaddr (ip_src iph), Recvfrom fd ETH_FRAME_LEN] s))"
proof -
  let ?bs = "enc_ip iph @ reply"
  define icmph where "icmph = reply @ replicate 1478 0"
  have len: "length reply = 16" by (simp add: reply icmp_echo_def)
  have n: "length ?bs = 36" using len by (simp add: ip_wire.enc_length)
  have "in_cksum reply 16 = Inr 0"
    using icmp_echo_cksum [of ICMP_ECHO_DATA ICMP_ECHOREPLY "htons ICMP_ID" seq] c reply by auto
  then have ck: "in_cksum icmph 16 = Inr 0" using len by (simp add: in_cksum_def get_bytes_def icmph_def)
  have icmp: "icmph ! 0 = ICMP_ECHOREPLY" "un16 (drop 4 icmph) = htons ICMP_ID" "drop 8 reply = ICMP_ECHO_DATA"
    by (simp_all add: icmph_def reply icmp_echo_def)
  have d28: "drop 28 ?bs = ICMP_ECHO_DATA" using icmp(3) by (simp add: ip_wire.enc_length)
  have str: "c_string 1486 ICMP_ECHO_DATA = Inr ''PINGPONG''"
    unfolding ICMP_ECHO_DATA_def by (rule c_string_bytes) simp_all
  have "ping_recv_step os host fd s = ping_check os host iph 20 icmph ?bs (log_call (Recvfrom fd ETH_FRAME_LEN) s)"
    by (rule ping_recv_step_Some [OF got _ refl]) (simp_all add: ip_wire.dec_enc_append ip_wire.enc_length hl icmph_def len)
  also have "\<dots> = Some (Inr (True, logs
    [Out (''Node '' @ host @ ''. Received ping from: '' @ name @ '', data=PINGPONG'' @ [CHR 0x0A]),
     Gethostbyaddr (ip_src iph), Recvfrom fd ETH_FRAME_LEN] s))"
    unfolding ping_check_def n using name ck icmp d28 str by (simp add: sys_hostbyaddr_def do_call_def log_call_logs)
  finally show ?thesis .
qed

lemma echo_reply_cksum: "\<exists>c. in_cksum (icmp_echo ICMP_ECHOREPLY 0 (htons ICMP_ID) seq ICMP_ECHO_DATA) 16 = Inr c"
  using icmp_echo_cksum [of ICMP_ECHO_DATA ICMP_ECHOREPLY "htons ICMP_ID" seq] by auto

theorem ping_reply_accepted_witness:
  "\<exists>os. ping_recv_step os ''vm1'' 5 \<lparr>hist = []\<rparr> = Some (Inr (True, logs
    [Out (''Node '' @ ''vm1'' @ ''. Received ping from: '' @ ''vm2'' @ '', data=PINGPONG'' @ [CHR 0x0A]),
     Gethostbyaddr 0x0200000A, Recvfrom 5 ETH_FRAME_LEN] \<lparr>hist = []\<rparr>))"
proof -
  let ?iph = "zero_ip\<lparr>ip_hl := 5, ip_src := 0x0200000A\<rparr>"
  obtain c where c: "in_cksum (icmp_echo ICMP_ECHOREPLY 0 (htons ICMP_ID) 7 ICMP_ECHO_DATA) 16 = Inr c"
    using echo_reply_cksum by blast
  let ?os = "demo_os\<lparr>os_recv := (\<lambda>_. Some (enc_ip ?iph @ icmp_echo ICMP_ECHOREPLY c (htons ICMP_ID) 7 ICMP_ECHO_DATA)),
    os_hostbyaddr := (\<lambda>_. Some ''vm2'')\<rparr>"
  have "ping_recv_step ?os ''vm1'' 5 \<lparr>hist = []\<rparr> = Some (Inr (True, logs
      [Out (''Node '' @ ''vm1'' @ ''. Received ping from: '' @ ''vm2'' @ '', data=PINGPONG'' @ [CHR 0x0A]),
       Gethostbyaddr (ip_src ?iph), Recvfrom 5 ETH_FRAME_LEN] \<lparr>hist = []\<rparr>))"
    by (rule ping_reply_accepted [OF _ _ refl c]) (simp_all add: demo_os_def)
  then show ?thesis by (intro exI [of _ ?os]) simp
qed

section \<open>Sending\<close>

text \<open>A turn of the sending thread whose address request and frame succeed sends exactly one frame, to the
  hardware address the ARP daemon gave and out of the interface it named, with the echo request of the current sequence
  number, sleeps a second and goes on with the next number, wrapping from 65535 to 0.\<close>

lemma ping_send_turn:
  assumes areq: "areq_call os (mk_sockaddr_in AF_INET ip) 16 s = Some (Inr (Some dst, s1))" and dst: "wf_hwaddr dst"
    and iph: "length iph = 20" and icmph: "echo_request seq = Inr icmph"
    and c: "c = Sendto_ll sock (the_frame ETH_P_IP (sll_addr dst) (sll_ifaddr dst) (iph @ icmph)) (the_dest ETH_P_IP (sll_addr dst) (sll_ifindex dst))"
    and sent: "0 \<le> os_int os (c # hist s1)"
  shows "ping_send_loop os sock iph ip seq s = ping_send_loop os sock iph ip (seq + 1) (logs [Sleep 1, c] s1)"
proof -
  have "length icmph = 16" using echo_request_ok [of seq] icmph by auto
  then have "ping_send_frame os sock (iph @ icmph) (int 36) (Some (sll_addr dst)) (Some (sll_ifaddr dst)) (sll_ifindex dst) s1 =
      Some (Inr (1, log_call c s1))"
    using ping_frames.send_ok [of 36 "iph @ icmph" "sll_addr dst" "sll_ifaddr dst" c sock "sll_ifindex dst" os s1] dst iph c sent
    by (simp add: wf_hwaddr_def)
  then show ?thesis using areq icmph
    by (subst ping_send_loop.simps) (simp add: do_call_def log_call_logs)
qed

section \<open>The thread list\<close>

definition one_per_target :: "pingt list \<times> world \<Rightarrow> bool" where
  "one_per_target p \<longleftrightarrow> distinct (map tgtip (fst p))"

inductive ping_list_step :: "os \<Rightarrow> pingt list \<times> world \<Rightarrow> pingt list \<times> world \<Rightarrow> bool" for os where
  create: "create_pingt os head ip s = Some (Inr ((r, head'), t)) \<Longrightarrow> ping_list_step os (head, s) (head', t)"

inductive_cases ping_list_stepE: "ping_list_step os p q"

lemma create_pingt_runs:
  assumes "distinct (map tgtip head)"
  shows "runs_to (create_pingt os head ip) s (\<lambda>(r, head') t. distinct (map tgtip head') \<and> set head \<subseteq> set head' \<and>
    (r = 0 \<or> r = 1) \<and> (r = 1 \<longrightarrow> ip \<in> tgtip ` set head') \<and> (r = 0 \<longrightarrow> head' = head) \<and>
    (head' \<noteq> head \<longrightarrow> Thread_create ip \<in> set (hist t)) \<and> (ip \<in> tgtip ` set head \<longrightarrow> head' = head \<and> t = s))"
  using assms by (auto simp: create_pingt_def runs_to_def sys_def do_call_def bnd_def)

interpretation ping_list: invariant_system "\<lambda>p. fst p = []" "ping_list_step os" one_per_target for os
proof
  show "one_per_target p" if "fst p = []" for p using that by (simp add: one_per_target_def)
  show "one_per_target q" if "one_per_target p" "ping_list_step os p q" for p q
    using that(2)
  proof (cases rule: ping_list_step.cases)
    case (create head ip s r head' t)
    then have "distinct (map tgtip head)" using that(1) by (simp add: one_per_target_def)
    from create_pingt_runs [OF this, of os ip s] create show ?thesis by (simp add: one_per_target_def runs_to_def)
  qed
qed

text \<open>C7: however often and in whatever order targets are added, no target ever has two sending threads;
  a successful call leaves the target with one, a failed one changes nothing, and a target that already has a thread costs no
  further call.\<close>

theorem pingt_one_per_target:
  assumes "reach (\<lambda>p. fst p = []) (ping_list_step os) (head, s)"
  shows "distinct (map tgtip head) \<and>
    runs_to (create_pingt os head ip) s (\<lambda>(r, head') t. distinct (map tgtip head') \<and> set head \<subseteq> set head' \<and>
      (r = 0 \<or> r = 1) \<and> (r = 1 \<longrightarrow> ip \<in> tgtip ` set head') \<and> (r = 0 \<longrightarrow> head' = head) \<and>
      (head' \<noteq> head \<longrightarrow> Thread_create ip \<in> set (hist t)) \<and> (ip \<in> tgtip ` set head \<longrightarrow> head' = head \<and> t = s))"
proof -
  have "one_per_target (head, s)" using assms by (rule ping_list.reach_inv)
  then have "distinct (map tgtip head)" by (simp add: one_per_target_def)
  then show ?thesis using create_pingt_runs by blast
qed

theorem pingt_one_per_target_witness:
  "distinct (map tgtip ([] :: pingt list)) \<and>
    runs_to (create_pingt (demo_os\<lparr>os_int := (\<lambda>_. 0)\<rparr>) [] 7) \<lparr>hist = []\<rparr> (\<lambda>(r, head') t. distinct (map tgtip head') \<and>
      set ([] :: pingt list) \<subseteq> set head' \<and> (r = 0 \<or> r = 1) \<and> (r = 1 \<longrightarrow> 7 \<in> tgtip ` set head') \<and> (r = 0 \<longrightarrow> head' = []) \<and>
      (head' \<noteq> [] \<longrightarrow> Thread_create 7 \<in> set (hist t)) \<and> (7 \<in> tgtip ` set ([] :: pingt list) \<longrightarrow> head' = [] \<and> t = \<lparr>hist = []\<rparr>))"
  by (rule pingt_one_per_target, rule reach_start) simp

lemma cancel_all_eq: "cancel_all head s = Some (Inr ((), logs (rev (map (\<lambda>p. Thread_cancel (tid p)) head)) s))"
  by (induction head arbitrary: s) (simp_all add: do_call_def)

lemma join_all_eq: "join_all os 1 head s = Some (Inr (1, logs (rev (map (\<lambda>p. Thread_join (tid p)) head)) s))"
  by (induction head arbitrary: s) (simp_all add: sys_def)

lemma free_all_eq: "free_all head s = Some (Inr ([], logs (rev (map (\<lambda>p. Free_ptr (pingt_ptr p)) head)) s))"
  by (induction head arbitrary: s) (simp_all add: do_call_def)

text \<open>C29: \<open>destroy_pingt\<close> cancels every thread, joins every thread and frees every entry, once each and in that order,
  and leaves the list empty; it answers 1 whatever the joins returned.\<close>

theorem pingt_destroy:
  "destroy_pingt os head s = Some (Inr ((1, []), logs (rev (map (\<lambda>p. Free_ptr (pingt_ptr p)) head) @
     rev (map (\<lambda>p. Thread_join (tid p)) head) @ rev (map (\<lambda>p. Thread_cancel (tid p)) head)) s))"
  by (simp add: destroy_pingt_def cancel_all_eq join_all_eq free_all_eq)

end
