(* ===== verification/Tour.thy ===== *)
theory Tour
  imports Ping
begin

text \<open>
  The tour application (\<open>tour.c\<close>): a packet that carries the list of the hosts still to be visited
  travels from host to host as an IP packet of protocol 237; every host it reaches joins the multicast
  group named in it and starts to ping the host it came from, and the last one ends the tour through
  the group. The global variables \<open>host\<close> and \<open>hostip\<close>, set once in \<open>main\<close>, are arguments.

  Both buffers that hold a \<open>struct tourhdr\<close> (\<open>tourmsg\<close> when the tour starts, \<open>packet\<close> when one arrives) are
  zeroed and have room for exactly \<open>TOUR_MAXIPS\<close> addresses. The model keeps the addresses that were
  written; the other slots up to the limit read as zero, and beyond the limit the access is out of bounds.
\<close>

section \<open>The message\<close>

abbreviation (input) IPPROTO_TOUR :: byte where "IPPROTO_TOUR \<equiv> 237"
abbreviation (input) IPID_TOUR :: u16 where "IPID_TOUR \<equiv> 0xF31F"
abbreviation (input) TOUR_MAXIPS :: nat where "TOUR_MAXIPS \<equiv> 16376"
abbreviation (input) IP_MSS :: nat where "IP_MSS \<equiv> 576"

text \<open>\<open>inet_aton (MCAST_ADDR)\<close> with \<open>MCAST_ADDR\<close> the string \<open>233.3.3.3\<close>.\<close>

definition MCAST_ADDR :: u32 where
  "MCAST_ADDR = un32 [233, 3, 3, 3]"

record tourhdr =
  mcastip :: u32
  mcastport :: u16
  tour_len :: u16
  ips :: "u32 list"

definition enc_tour :: "tourhdr \<Rightarrow> byte list" where
  "enc_tour h = le32 (mcastip h) @ le16 (mcastport h) @ le16 (tour_len h) @ concat (map le32 (ips h))"

fun dec_ips :: "byte list \<Rightarrow> u32 list" where
  "dec_ips [] = []"
| "dec_ips bs = un32 (take 4 bs @ replicate 4 0) # dec_ips (drop 4 bs)"

definition dec_tour :: "byte list \<Rightarrow> tourhdr" where
  "dec_tour bs = \<lparr>mcastip = un32 bs, mcastport = un16 (drop 4 bs), tour_len = un16 (drop 6 bs), ips = dec_ips (drop 8 bs)\<rparr>"

text \<open>Reading the slot \<open>ips[i]\<close>, and the first \<open>n\<close> bytes of the buffer.\<close>

definition get_ip :: "tourhdr \<Rightarrow> int \<Rightarrow> stop + u32" where
  "get_ip h i = (if 0 \<le> i \<and> i < int TOUR_MAXIPS
     then Inr (if nat i < length (ips h) then ips h ! nat i else 0) else Inl OutOfBounds)"

definition tour_mem :: "tourhdr \<Rightarrow> nat \<Rightarrow> byte list" where
  "tour_mem h n = take n (enc_tour h @ replicate n 0)"

definition TOUR_SIZE :: "u16 \<Rightarrow> nat" where
  "TOUR_SIZE len = nat (8 + sint len * 4)"

definition print_tour :: "tourhdr \<Rightarrow> stop + string" where
  "print_tour hdr =
     (let n = unat (ntohs (tour_len hdr))
      in if n \<le> TOUR_MAXIPS then
           Inr (''TOUR: mcastaddr:'' @ inet_ntoa (mcastip hdr) @ '' mcastport:'' @ dec_str (unat (ntohs (mcastport hdr))) @
             '' len:'' @ dec_str n @ '' ips:'' @
             concat (map (\<lambda>a. '' <-'' @ inet_ntoa a) (take n (ips hdr @ replicate n 0))) @ [CHR 0x0A])
         else Inl OutOfBounds)"

definition hex4 :: "u16 \<Rightarrow> string" where
  "hex4 w = hex2 (ucast (drop_bit 8 w)) @ hex2 (ucast w)"

definition print_ip :: "ip \<Rightarrow> string" where
  "print_ip hdr = ''IP: tos:0x'' @ hex2 (ip_tos hdr) @ '' len:0x'' @ hex4 (ip_len hdr) @ '' id:0x'' @ hex4 (ip_id hdr) @
     '' off:0x'' @ hex4 (ip_off hdr) @ '' ttl:0x'' @ hex2 (ip_ttl hdr) @ '' p:0x'' @ hex2 (ip_p hdr) @ '' sum:0x'' @ hex4 (ip_sum hdr) @
     '' src:'' @ inet_ntoa (ip_src hdr) @ '' '' @ ''dst:'' @ inet_ntoa (ip_dst hdr) @ [CHR 0x0A]"

section \<open>Sending\<close>

definition tour_ip :: "u32 \<Rightarrow> u32 \<Rightarrow> nat \<Rightarrow> ip" where
  "tour_ip hostip dstip len = zero_ip\<lparr>ip_src := hostip, ip_dst := dstip, ip_p := IPPROTO_TOUR, ip_off := htons IP_DF,
     ip_id := htons IPID_TOUR, ip_hl := 5, ip_len := htons (of_nat (20 + len)), ip_v := IPVERSION, ip_ttl := 10\<rparr>"

definition send_ip :: "os \<Rightarrow> u32 \<Rightarrow> int \<Rightarrow> byte list \<Rightarrow> nat \<Rightarrow> u32 \<Rightarrow> ('a world_scheme, int) prog" where
  "send_ip os hostip rt data len dstip =
     bnd (pure (get_bytes data 0 len)) (\<lambda>body.
     bnd (sys os (Sendto_in rt (enc_ip (tour_ip hostip dstip len) @ body) dstip)) (\<lambda>nsent.
     if nsent < 0 then ret 0 else ret nsent))"

definition forward_tour :: "os \<Rightarrow> u32 \<Rightarrow> int \<Rightarrow> tourhdr \<Rightarrow> ('a world_scheme, int) prog" where
  "forward_tour os hostip rt tour =
     bnd (pure (get_ip tour (sint (tour_len tour) - 1))) (\<lambda>nextip.
     let len = tour_len tour - 1; sz = TOUR_SIZE len; tour = tour\<lparr>tour_len := htons len\<rparr>
     in send_ip os hostip rt (tour_mem tour sz) sz nextip)"

section \<open>Set-up\<close>

definition mcast_join :: "os \<Rightarrow> int \<Rightarrow> u32 \<Rightarrow> u32 \<Rightarrow> ('a world_scheme, int) prog" where
  "mcast_join os sockfd ip ifindex =
     bnd (sys os (Join_group sockfd ip ifindex)) (\<lambda>r. if r < 0 then ret 0 else ret 1)"

definition bind_port :: "os \<Rightarrow> int \<Rightarrow> int \<Rightarrow> ('a world_scheme, int) prog" where
  "bind_port os sockfd port =
     bnd (sys os (Bind_in sockfd (word_of_int port))) (\<lambda>b.
     if b < 0 then ret (-1)
     else bnd (sys os (Getsockname sockfd)) (\<lambda>g s.
       if g < 0 then ret (-1) s else ret (uint (os_port os (hist s))) s))"

definition sys_hostbyname :: "os \<Rightarrow> string \<Rightarrow> ('a world_scheme, u32 list option) prog" where
  "sys_hostbyname os name s = ret (os_hostbyname os (Gethostbyname name # hist s)) (log_call (Gethostbyname name) s)"

definition getipbyhost :: "os \<Rightarrow> string option \<Rightarrow> ('a world_scheme, u32 option) prog" where
  "getipbyhost os hostname = (case hostname of
       None \<Rightarrow> ret None
     | Some name \<Rightarrow> bnd (sys_hostbyname os name) (\<lambda>he. case he of
         None \<Rightarrow> ret None
       | Some [] \<Rightarrow> halt NullDeref
       | Some (a # _) \<Rightarrow> ret (Some a)))"

fun no_repeats :: "string list \<Rightarrow> bool" where
  "no_repeats (a # b # hosts) = (if a = b then False else no_repeats (b # hosts))"
| "no_repeats _ = True"

text \<open>
  \<open>TOUR_MAXIPS\<close> is unsigned, so \<open>argc - 1\<close> is converted to an \<open>unsigned long\<close> for the comparison: the -1 of an empty
  argument vector becomes the largest one and is refused.
\<close>

definition valid_args :: "string list \<Rightarrow> bool" where
  "valid_args argv = (if argv = [] \<or> length argv - 1 > TOUR_MAXIPS then False else no_repeats (tl argv))"

text \<open>The loop that resolves the hosts in order and writes their addresses from the last slot to the first.\<close>

fun fill_ips :: "os \<Rightarrow> u32 list \<Rightarrow> string list \<Rightarrow> ('a world_scheme, u32 list option) prog" where
  "fill_ips os filled [] = ret (Some filled)"
| "fill_ips os filled (h # hosts) =
     bnd (getipbyhost os (Some h)) (\<lambda>r. case r of
       None \<Rightarrow> ret None
     | Some a \<Rightarrow> if length hosts < TOUR_MAXIPS then fill_ips os (a # filled) hosts else halt OutOfBounds)"

definition start_tour :: "os \<Rightarrow> u32 \<Rightarrow> int \<Rightarrow> int \<Rightarrow> int \<Rightarrow> string list \<Rightarrow> ('a world_scheme, int) prog" where
  "start_tour os hostip rt udp_recv udp_send hosts =
     bnd (bind_port os udp_recv 0) (\<lambda>port.
     if port < 0 then ret 0
     else bnd (mcast_join os udp_recv MCAST_ADDR 0) (\<lambda>j.
       if j = 0 then ret 0
       else bnd (sys os (Connect_in udp_send MCAST_ADDR (word_of_int port))) (\<lambda>c.
         if c < 0 then ret 0
         else bnd (fill_ips os [] hosts) (\<lambda>r. case r of
           None \<Rightarrow> ret 0
         | Some filled \<Rightarrow> forward_tour os hostip rt
             \<lparr>mcastip = MCAST_ADDR, mcastport = word_of_int port, tour_len = of_nat (length hosts), ips = filled\<rparr>))))"

section \<open>A tour packet\<close>

text \<open>
  What the loop does next: it goes on (with the new value of \<open>binded\<close> and the list of ping threads), it leaves the
  loop after a multicast message, or it jumps to the clean-up code.
\<close>

datatype tour_next = Go_on bool "pingt list" | Tour_ended "pingt list" | CLEANUP_THREADS "pingt list"

definition announce_source :: "os \<Rightarrow> u32 \<Rightarrow> ('a world_scheme, unit) prog" where
  "announce_source os a =
     bnd (sys_hostbyaddr os a) (\<lambda>he. case he of
       None \<Rightarrow> ret ()
     | Some name \<Rightarrow> bnd (sys os Time) (\<lambda>clk.
         do_call (Out (take 24 (os_ctime os clk) @ '': received source routing packet from '' @ name @ [CHR 0x0A]))))"

definition join_tour :: "os \<Rightarrow> int \<Rightarrow> int \<Rightarrow> tourhdr \<Rightarrow> ('a world_scheme, bool) prog" where
  "join_tour os udp_recv udp_send tour =
     bnd (bind_port os udp_recv (sint (mcastport tour))) (\<lambda>port.
     if port < 0 then ret False
     else bnd (sys os (Connect_in udp_send (mcastip tour) (word_of_int port))) (\<lambda>c.
       if c < 0 then ret False
       else bnd (mcast_join os udp_recv (mcastip tour) 0) (\<lambda>j. ret (j \<noteq> 0))))"

definition end_message :: "string \<Rightarrow> string" where
  "end_message host = ''<<<<< This is node '' @ host @ ''. Tour has ended. Group members please identify yourselves. >>>>>''"

definition member_message :: "string \<Rightarrow> string" where
  "member_message host = ''<<<<< Node '' @ host @ ''. I am a member of the group. >>>>>''"

text \<open>\<open>snprintf\<close> into an array of 1024 bytes and \<open>send\<close> of the text.\<close>

definition send_text :: "os \<Rightarrow> int \<Rightarrow> string \<Rightarrow> ('a world_scheme, int) prog" where
  "send_text os fd str = sys os (Send fd (string_bytes (take 1023 str)))"

definition visit_node ::
  "os \<Rightarrow> string \<Rightarrow> u32 \<Rightarrow> int \<Rightarrow> int \<Rightarrow> int \<Rightarrow> bool \<Rightarrow> pingt list \<Rightarrow> ip \<Rightarrow> tourhdr \<Rightarrow> u32 \<Rightarrow> ('a world_scheme, tour_next) prog" where
  "visit_node os host hostip rt udp_recv udp_send binded head iph tour src =
     bnd (announce_source os (ip_src iph)) (\<lambda>_.
     let tour = tour\<lparr>tour_len := ntohs (tour_len tour)\<rparr>
     in bnd (if binded then ret True else join_tour os udp_recv udp_send tour) (\<lambda>joined.
        if \<not> joined then ret (CLEANUP_THREADS head)
        else bnd (create_pingt os head src) (\<lambda>(r, head).
          if r = 0 then ret (CLEANUP_THREADS head)
          else if sint (tour_len tour) > 0 then
            bnd (forward_tour os hostip rt tour) (\<lambda>sent. if sent = 0 then ret (CLEANUP_THREADS head) else ret (Go_on True head))
          else
            bnd (do_call (Sleep 5)) (\<lambda>_.
            bnd (send_text os udp_send (end_message host)) (\<lambda>n.
            if n < 0 then ret (CLEANUP_THREADS head) else ret (Go_on True head))))))"

definition tour_packet ::
  "os \<Rightarrow> string \<Rightarrow> u32 \<Rightarrow> int \<Rightarrow> int \<Rightarrow> int \<Rightarrow> bool \<Rightarrow> pingt list \<Rightarrow> byte list \<Rightarrow> u32 \<Rightarrow> ('a world_scheme, tour_next) prog" where
  "tour_packet os host hostip rt udp_recv udp_send binded head packet src =
     (if length packet < 28 then ret (Go_on binded head)
      else if unat (ntohs (ip_len (dec_ip packet))) < 28 then ret (Go_on binded head)
      else if ip_id (dec_ip packet) \<noteq> htons IPID_TOUR then ret (Go_on binded head)
      else visit_node os host hostip rt udp_recv udp_send binded head (dec_ip packet) (dec_tour (drop 20 packet)) src)"

section \<open>The loop\<close>

definition show_multicast :: "string \<Rightarrow> nat \<Rightarrow> byte list \<Rightarrow> ('a world_scheme, unit) prog" where
  "show_multicast host cap buf =
     bnd (pure (c_string cap buf)) (\<lambda>str. do_call (Out (''Node '' @ host @ ''. Received: '' @ str @ [CHR 0x0A])))"

definition tour_iter ::
  "os \<Rightarrow> string \<Rightarrow> u32 \<Rightarrow> int \<Rightarrow> int \<Rightarrow> int \<Rightarrow> bool \<Rightarrow> pingt list \<Rightarrow> ('a world_scheme, tour_next) prog" where
  "tour_iter os host hostip rt udp_recv udp_send binded head =
     bnd (pure (sbnd (fd_set_add rt []) (fd_set_add udp_recv))) (\<lambda>fds.
     bnd (sys_select os fds None) (\<lambda>(r, rset).
     if r < 0 then ret (CLEANUP_THREADS head)
     else if rset udp_recv then
       bnd (sys_recvfrom_in os udp_recv 1024) (\<lambda>(got, src). case got of
         None \<Rightarrow> ret (CLEANUP_THREADS head)
       | Some buf \<Rightarrow> bnd (show_multicast host 1024 buf) (\<lambda>_. ret (Tour_ended head)))
     else if rset rt then
       bnd (sys_recvfrom_in os rt IP_MAXPACKET) (\<lambda>(got, src). case got of
         None \<Rightarrow> ret (CLEANUP_THREADS head)
       | Some packet \<Rightarrow> tour_packet os host hostip rt udp_recv udp_send binded head packet src)
     else ret (Go_on binded head)))"

partial_function (option) tour_loop ::
  "os \<Rightarrow> string \<Rightarrow> u32 \<Rightarrow> int \<Rightarrow> int \<Rightarrow> int \<Rightarrow> bool \<Rightarrow> pingt list \<Rightarrow> 'a world_scheme \<Rightarrow> (stop + tour_next \<times> 'a world_scheme) option" where
  "tour_loop os host hostip rt udp_recv udp_send binded head s =
     bnd (tour_iter os host hostip rt udp_recv udp_send binded head) (\<lambda>x s. case x of
       Go_on binded head \<Rightarrow> tour_loop os host hostip rt udp_recv udp_send binded head s
     | Tour_ended head \<Rightarrow> ret x s
     | CLEANUP_THREADS head \<Rightarrow> ret x s) s"

partial_function (option) end_loop ::
  "os \<Rightarrow> string \<Rightarrow> int \<Rightarrow> 'a world_scheme \<Rightarrow> (stop + int \<times> 'a world_scheme) option" where
  "end_loop os host udp_recv s =
     bnd (pure (fd_set_add udp_recv [])) (\<lambda>fds s.
     bnd (sys_select os fds (Some 5)) (\<lambda>(rv, rset) s.
       if rv < 0 then ret 0 s
       else if rv = 0 then ret 1 s
       else bnd (sys_recvfrom_in os udp_recv IP_MSS) (\<lambda>(got, src) s. case got of
         None \<Rightarrow> ret 0 s
       | Some data \<Rightarrow> bnd (show_multicast host IP_MSS data) (\<lambda>_ s. end_loop os host udp_recv s) s) s) s) s"

definition end_tour :: "os \<Rightarrow> string \<Rightarrow> int \<Rightarrow> int \<Rightarrow> ('a world_scheme, int) prog" where
  "end_tour os host udp_recv udp_send =
     bnd (send_text os udp_send (member_message host)) (\<lambda>n. if n < 0 then ret 0 else end_loop os host udp_recv)"

definition cleanup_tlist :: "os \<Rightarrow> pingt list \<Rightarrow> ('a world_scheme, int) prog" where
  "cleanup_tlist os head = bnd (destroy_pingt os head) (\<lambda>_. ret 0)"

text \<open>\<open>run_tour\<close> from the point where the receiving thread runs, and the whole of it.\<close>

definition tour_threads :: "os \<Rightarrow> string \<Rightarrow> u32 \<Rightarrow> int \<Rightarrow> int \<Rightarrow> int \<Rightarrow> bool \<Rightarrow> int \<Rightarrow> ('a world_scheme, int) prog" where
  "tour_threads os host hostip rt udp_recv udp_send binded recvthread =
     bnd (tour_loop os host hostip rt udp_recv udp_send binded []) (\<lambda>x. case x of
       Tour_ended head \<Rightarrow>
         bnd (sys os (Thread_cancel recvthread)) (\<lambda>e1.
         if e1 \<noteq> 0 then cleanup_tlist os head
         else bnd (sys os (Thread_join recvthread)) (\<lambda>e2.
           if e2 \<noteq> 0 then cleanup_tlist os head
           else bnd (destroy_pingt os head) (\<lambda>(status, head).
             if status = 0 then ret 0
             else bnd (end_tour os host udp_recv udp_send) (\<lambda>r. if r = 0 then ret 0 else ret 1))))
     | CLEANUP_THREADS head \<Rightarrow>
         bnd (do_call (Thread_cancel recvthread)) (\<lambda>_.
         bnd (do_call (Thread_join recvthread)) (\<lambda>_. cleanup_tlist os head))
     | Go_on b head \<Rightarrow> ret 0)"

definition run_tour :: "os \<Rightarrow> string \<Rightarrow> u32 \<Rightarrow> int \<Rightarrow> int \<Rightarrow> int \<Rightarrow> bool \<Rightarrow> ('a world_scheme, int) prog" where
  "run_tour os host hostip rt udp_recv udp_send binded =
     bnd (sys os Recv_thread_create) (\<lambda>err s.
     if err \<noteq> 0 then ret 0 s
     else tour_threads os host hostip rt udp_recv udp_send binded (os_tid os (hist s)) s)"

text \<open>
  \<open>main\<close>: the part that has all three sockets, whose result is the exit status with which it reaches the label
  \<open>CLOSE_UDP_SEND\<close>, and the whole, with the labels at its end as the ways to leave it.
\<close>

definition tour_session :: "os \<Rightarrow> string list \<Rightarrow> int \<Rightarrow> int \<Rightarrow> int \<Rightarrow> ('a world_scheme, int) prog" where
  "tour_session os argv rt udp_recv udp_send =
     bnd (sys os Gethostname) (\<lambda>g s.
     if g < 0 then ret EXIT_FAILURE s
     else
       let host = os_hostname os (hist s)
       in bnd (getipbyhost os (Some host)) (\<lambda>ho.
          let hostip = (case ho of None \<Rightarrow> 0 | Some a \<Rightarrow> a)
          in bnd (if 1 < length argv then start_tour os hostip rt udp_recv udp_send (tl argv) else ret 1) (\<lambda>started.
             if started = 0 then ret EXIT_FAILURE
             else bnd (run_tour os host hostip rt udp_recv udp_send (1 < length argv)) (\<lambda>ok.
               if ok = 0 then ret EXIT_FAILURE else ret EXIT_SUCCESS))) s)"

definition tour_main :: "os \<Rightarrow> string list \<Rightarrow> ('a world_scheme, int) prog" where
  "tour_main os argv =
     (if \<not> valid_args argv then ret EXIT_FAILURE
      else bnd (sys os (Socket (uint AF_INET) SOCK_RAW (uint IPPROTO_TOUR))) (\<lambda>rt.
        if rt < 0 then ret EXIT_FAILURE
        else
          let CLOSE_RT = (\<lambda>status. bnd (do_call (Close rt)) (\<lambda>_. ret status))
          in bnd (sys os (Set_hdrincl rt)) (\<lambda>o1.
             if o1 < 0 then CLOSE_RT EXIT_FAILURE
             else bnd (sys os (Socket (uint AF_INET) SOCK_DGRAM 0)) (\<lambda>udp_recv.
               if udp_recv < 0 then CLOSE_RT EXIT_FAILURE
               else
                 let CLOSE_UDP_RECV = (\<lambda>status. bnd (do_call (Close udp_recv)) (\<lambda>_. CLOSE_RT status))
                 in bnd (sys os (Socket (uint AF_INET) SOCK_DGRAM 0)) (\<lambda>udp_send.
                    if udp_send < 0 then CLOSE_UDP_RECV EXIT_FAILURE
                    else
                      let CLOSE_UDP_SEND = (\<lambda>status. bnd (do_call (Close udp_send)) (\<lambda>_. CLOSE_UDP_RECV status))
                      in bnd (tour_session os argv rt udp_recv udp_send) CLOSE_UDP_SEND)))))"

section \<open>The message on the wire\<close>

lemma dec_ips_le32 [simp]: "dec_ips (le32 a @ r) = a # dec_ips r"
proof -
  obtain x y z w where "le32 a = [x, y, z, w]" by (simp add: le32_def)
  moreover have "un32 (le32 a @ replicate 4 0) = a" by simp
  ultimately show ?thesis by simp
qed

lemma dec_ips_concat [simp]: "dec_ips (concat (map le32 as)) = as"
  by (induction as) simp_all

lemma length_enc_tour [simp]: "length (enc_tour h) = 8 + 4 * length (ips h)"
proof -
  have "length (concat (map le32 as)) = 4 * length as" for as by (induction as) simp_all
  then show ?thesis by (simp add: enc_tour_def)
qed

lemma dec_enc_tour [simp]: "dec_tour (enc_tour h) = h"
  by (simp add: enc_tour_def dec_tour_def)

text \<open>The packet that travels with the addresses \<open>as\<close> left, the last of them to be visited next.\<close>

definition tour_wire :: "u32 \<Rightarrow> u32 \<Rightarrow> u32 \<Rightarrow> u16 \<Rightarrow> u32 list \<Rightarrow> byte list" where
  "tour_wire src dst m p as = enc_ip (tour_ip src dst (8 + 4 * length as)) @
     enc_tour \<lparr>mcastip = m, mcastport = p, tour_len = htons (of_nat (length as)), ips = as\<rparr>"

lemma sint_of_nat16: "n < 32768 \<Longrightarrow> sint (of_nat n :: u16) = int n"
  by (simp add: sint_uint unsigned_of_nat take_bit_nat_eq_self signed_take_bit_int_eq_self)

lemma tour_wire_fields:
  assumes "length as \<le> TOUR_MAXIPS"
  shows "dec_ip (tour_wire src dst m p as) = tour_ip src dst (8 + 4 * length as)"
    and "dec_tour (drop 20 (tour_wire src dst m p as)) = \<lparr>mcastip = m, mcastport = p, tour_len = htons (of_nat (length as)), ips = as\<rparr>"
    and "length (tour_wire src dst m p as) = 28 + 4 * length as"
    and "unat (ntohs (ip_len (tour_ip src dst (8 + 4 * length as)))) = 28 + 4 * length as"
    and "ip_id (tour_ip src dst n) = htons IPID_TOUR" and "ip_src (tour_ip src dst n) = src"
proof -
  show "dec_ip (tour_wire src dst m p as) = tour_ip src dst (8 + 4 * length as)"
    by (simp add: tour_wire_def ip_wire.dec_enc_append)
  show "dec_tour (drop 20 (tour_wire src dst m p as)) = \<lparr>mcastip = m, mcastport = p, tour_len = htons (of_nat (length as)), ips = as\<rparr>"
    by (simp add: tour_wire_def ip_wire.enc_length)
  show "length (tour_wire src dst m p as) = 28 + 4 * length as" by (simp add: tour_wire_def ip_wire.enc_length)
  have "28 + 4 * length as < 2 ^ 16" using assms by simp
  then show "unat (ntohs (ip_len (tour_ip src dst (8 + 4 * length as)))) = 28 + 4 * length as"
    by (simp add: tour_ip_def unsigned_of_nat take_bit_nat_eq_self del: of_nat_add of_nat_mult)
qed (simp_all add: tour_ip_def)

lemma forward_tour_eq:
  assumes "length as < TOUR_MAXIPS"
  shows "forward_tour os hostip rt \<lparr>mcastip = m, mcastport = p, tour_len = of_nat (Suc (length as)), ips = as @ [a]\<rparr> s =
    (let c = Sendto_in rt (tour_wire hostip a m p as) a
     in Some (Inr (if os_int os (c # hist s) < 0 then 0 else os_int os (c # hist s), log_call c s)))"
proof -
  let ?h = "\<lparr>mcastip = m, mcastport = p, tour_len = of_nat (Suc (length as)), ips = as @ [a]\<rparr>"
  let ?h' = "\<lparr>mcastip = m, mcastport = p, tour_len = htons (of_nat (length as)), ips = as @ [a]\<rparr>"
  let ?n = "8 + 4 * length as"
  have "sint (tour_len ?h) = int (Suc (length as))" using sint_of_nat16 [of "Suc (length as)"] assms by simp
  then have ip: "get_ip ?h (sint (tour_len ?h) - 1) = Inr a" using assms by (simp add: get_ip_def)
  have sz: "TOUR_SIZE (of_nat (length as)) = ?n"
    using sint_of_nat16 [of "length as"] assms by (simp add: TOUR_SIZE_def nat_add_distrib nat_mult_distrib)
  have mem: "tour_mem ?h' ?n = enc_tour (?h'\<lparr>ips := as\<rparr>)"
    by (simp add: tour_mem_def enc_tour_def) (simp add: length_enc_tour [of "?h'\<lparr>ips := as\<rparr>", unfolded enc_tour_def, simplified])
  show ?thesis using ip
    by (simp add: forward_tour_def send_ip_def Let_def sz mem get_bytes_def sys_def tour_wire_def)
qed

end
