(* ===== verification/Tour_Correct.thy ===== *)
theory Tour_Correct
  imports Tour
begin

text \<open>
  What the tour application achieves. A network is a node per address; the packet a node sends is
  delivered to the node it is addressed to, with the sender's address, and the tour is followed from the
  host that starts it to the host that ends it. Then the single operations: the
  bounds of the address list, what a received length can do, the end of a tour, and the sockets of \<open>main\<close>.
\<close>

section \<open>One visit\<close>

text \<open>
  A host on which the calls succeed, with the results the manual pages give for success: 0 for setting up the sockets and
  creating a thread, a non-null pointer for an allocation, and the number of bytes for sending.
\<close>

definition willing :: "os \<Rightarrow> bool" where
  "willing os \<longleftrightarrow> (\<forall>c h. case c of
       Bind_in _ _ \<Rightarrow> os_int os (c # h) = 0
     | Getsockname _ \<Rightarrow> os_int os (c # h) = 0
     | Connect_in _ _ _ \<Rightarrow> os_int os (c # h) = 0
     | Join_group _ _ _ \<Rightarrow> os_int os (c # h) = 0
     | Thread_create _ \<Rightarrow> os_int os (c # h) = 0
     | Calloc _ _ \<Rightarrow> 0 < os_int os (c # h)
     | Send _ bs \<Rightarrow> os_int os (c # h) = int (length bs)
     | Sendto_in _ bs _ \<Rightarrow> os_int os (c # h) = int (length bs)
     | _ \<Rightarrow> True)"

lemma willing_call:
  assumes "willing os"
  shows "os_int os (Bind_in fd p # h) = 0" "os_int os (Getsockname fd # h) = 0" "os_int os (Connect_in fd a p # h) = 0"
    "os_int os (Join_group fd a i # h) = 0" "os_int os (Thread_create a # h) = 0" "\<not> os_int os (Calloc m n # h) < 0"
    "os_int os (Send fd bs # h) = int (length bs)" "os_int os (Sendto_in fd bs a # h) = int (length bs)"
  using assms [unfolded willing_def, rule_format, of "Bind_in fd p" h] assms [unfolded willing_def, rule_format, of "Getsockname fd" h]
    assms [unfolded willing_def, rule_format, of "Connect_in fd a p" h] assms [unfolded willing_def, rule_format, of "Join_group fd a i" h]
    assms [unfolded willing_def, rule_format, of "Thread_create a" h] assms [unfolded willing_def, rule_format, of "Calloc m n" h]
    assms [unfolded willing_def, rule_format, of "Send fd bs" h] assms [unfolded willing_def, rule_format, of "Sendto_in fd bs a" h]
  by simp_all

lemma tour_wire_nonempty [simp]: "tour_wire src dst m p as \<noteq> []"
  by (simp add: tour_wire_def enc_ip_def le16_def)

lemma announce_source_eq: "\<exists>cs. announce_source os a s = Some (Inr ((), logs cs s))"
  by (cases "os_hostbyaddr os (Gethostbyaddr a # hist s)")
    (auto simp: announce_source_def sys_hostbyaddr_def sys_def do_call_def log_call_logs)

lemma word_of_sint [simp]: "word_of_int (sint (w :: 'a :: len word)) = w"
  by simp

lemma join_tour_willing:
  assumes "willing os"
  shows "\<exists>port. join_tour os ur us tour s = Some (Inr (True, logs [Join_group ur (mcastip tour) 0, Connect_in us (mcastip tour) port,
    Getsockname ur, Bind_in ur (mcastport tour)] s))"
proof -
  note w = willing_call [OF assms]
  have "\<not> (uint p :: int) < 0" for p :: u16 by simp
  then show ?thesis
    by (auto simp: join_tour_def bind_port_def mcast_join_def sys_def w log_call_logs)
qed

lemma create_pingt_willing:
  assumes "willing os"
  shows "\<exists>cs head'. create_pingt os head ip s = Some (Inr ((1, head'), logs cs s)) \<and> tgtip ` set head' = insert ip (tgtip ` set head)"
proof (cases "\<exists>cur \<in> set head. tgtip cur = ip")
  case True
  then have "create_pingt os head ip s = Some (Inr ((1, head), logs [] s))" by (simp add: create_pingt_def)
  moreover from True have "tgtip ` set head = insert ip (tgtip ` set head)" by auto
  ultimately show ?thesis by blast
next
  case False
  then have "create_pingt os head ip s = Some (Inr ((1, \<lparr>tgtip = ip, tid = os_tid os (Thread_create ip # Calloc 1 80 # hist s),
      pingt_ptr = os_int os (Calloc 1 80 # hist s)\<rparr> # head), logs [Thread_create ip, Calloc 1 80] s))"
    by (simp add: create_pingt_def sys_def willing_call [OF assms] log_call_logs)
  then show ?thesis by force
qed

text \<open>What a visit does before it passes the packet on.\<close>

definition visited :: "bool \<Rightarrow> int \<Rightarrow> u32 \<Rightarrow> u16 \<Rightarrow> call list \<Rightarrow> bool" where
  "visited binded ur m p cs \<longleftrightarrow> (binded \<or> {Bind_in ur p, Join_group ur m 0} \<subseteq> set cs)"

lemma tour_packet_eq:
  assumes "length as \<le> TOUR_MAXIPS"
  shows "tour_packet os host hostip rt ur us binded head (tour_wire src dst m p as) src =
    visit_node os host hostip rt ur us binded head (tour_ip src dst (8 + 4 * length as))
      \<lparr>mcastip = m, mcastport = p, tour_len = htons (of_nat (length as)), ips = as\<rparr> src"
  by (simp only: tour_packet_def tour_wire_fields [OF assms]) simp

lemma visit_node_prefix:
  assumes os: "willing os" and tour: "tour' = tour\<lparr>tour_len := ntohs (tour_len tour)\<rparr>"
  obtains cs head' where
    "visit_node os host hostip rt ur us binded head iph tour src s =
      (if sint (tour_len tour') > 0 then
         bnd (forward_tour os hostip rt tour')
           (\<lambda>sent. if sent = 0 then ret (CLEANUP_THREADS head') else ret (Go_on True head')) (logs cs s)
       else bnd (do_call (Sleep 5)) (\<lambda>_. bnd (send_text os us (end_message host)) (\<lambda>n.
         if n < 0 then ret (CLEANUP_THREADS head') else ret (Go_on True head'))) (logs cs s))"
    and "tgtip ` set head' = insert src (tgtip ` set head)" and "visited binded ur (mcastip tour) (mcastport tour) cs"
proof -
  obtain c1 where c1: "announce_source os (ip_src iph) s = Some (Inr ((), logs c1 s))" using announce_source_eq by blast
  obtain c2 where c2: "(if binded then ret True else join_tour os ur us tour') (logs c1 s) = Some (Inr (True, logs c2 (logs c1 s)))"
      and v: "visited binded ur (mcastip tour) (mcastport tour) c2"
  proof (cases binded)
    case True
    then show thesis using that [of "[]"] by (simp add: visited_def)
  next
    case False
    obtain port where "join_tour os ur us tour' (logs c1 s) = Some (Inr (True, logs [Join_group ur (mcastip tour) 0,
        Connect_in us (mcastip tour) port, Getsockname ur, Bind_in ur (mcastport tour)] (logs c1 s)))"
      using join_tour_willing [OF os, of ur us tour' "logs c1 s"] by (auto simp: tour)
    with False show thesis
      by (intro that [of "[Join_group ur (mcastip tour) 0, Connect_in us (mcastip tour) port, Getsockname ur, Bind_in ur (mcastport tour)]"])
        (simp_all add: visited_def)
  qed
  obtain c3 head' where c3: "create_pingt os head src (logs c2 (logs c1 s)) = Some (Inr ((1, head'), logs c3 (logs c2 (logs c1 s))))"
      and h: "tgtip ` set head' = insert src (tgtip ` set head)"
    using create_pingt_willing [OF os] by blast
  show thesis
  proof (rule that [of head' "c3 @ c2 @ c1"])
    show "visited binded ur (mcastip tour) (mcastport tour) (c3 @ c2 @ c1)" using v by (auto simp: visited_def)
  qed (use c1 c2 c3 in \<open>simp_all add: visit_node_def Let_def tour [symmetric] h\<close>)
qed

lemma visit_prefix:
  assumes os: "willing os" and len: "length as \<le> TOUR_MAXIPS"
  obtains cs head' where
    "tour_packet os host hostip rt ur us binded head (tour_wire src dst m p as) src s =
      (if as \<noteq> [] then
         bnd (forward_tour os hostip rt \<lparr>mcastip = m, mcastport = p, tour_len = of_nat (length as), ips = as\<rparr>)
           (\<lambda>sent. if sent = 0 then ret (CLEANUP_THREADS head') else ret (Go_on True head')) (logs cs s)
       else bnd (do_call (Sleep 5)) (\<lambda>_. bnd (send_text os us (end_message host)) (\<lambda>n.
         if n < 0 then ret (CLEANUP_THREADS head') else ret (Go_on True head'))) (logs cs s))"
    and "tgtip ` set head' = insert src (tgtip ` set head)" and "visited binded ur m p cs"
proof -
  have "sint (of_nat (length as) :: u16) = int (length as)" using len by (intro sint_of_nat16) simp
  then have pos: "0 < sint (of_nat (length as) :: u16) \<longleftrightarrow> as \<noteq> []" by simp
  show thesis
    by (rule visit_node_prefix [OF os refl, of host hostip rt ur us binded head "tour_ip src dst (8 + 4 * length as)"
          "\<lparr>mcastip = m, mcastport = p, tour_len = htons (of_nat (length as)), ips = as\<rparr>" src s])
      (rule that, simp_all add: tour_packet_eq [OF len] pos)
qed

lemma visit_forwards:
  assumes "willing os" and "length as < TOUR_MAXIPS"
  shows "\<exists>cs head'. tour_packet os host hostip rt ur us binded head (tour_wire src dst m p (as @ [b])) src s =
      Some (Inr (Go_on True head', logs (Sendto_in rt (tour_wire hostip b m p as) b # cs) s)) \<and>
    tgtip ` set head' = insert src (tgtip ` set head) \<and> visited binded ur m p cs"
proof -
  obtain cs head' where 1: "tour_packet os host hostip rt ur us binded head (tour_wire src dst m p (as @ [b])) src s =
      bnd (forward_tour os hostip rt \<lparr>mcastip = m, mcastport = p, tour_len = of_nat (Suc (length as)), ips = as @ [b]\<rparr>)
           (\<lambda>sent. if sent = 0 then ret (CLEANUP_THREADS head') else ret (Go_on True head')) (logs cs s)"
    and 2: "tgtip ` set head' = insert src (tgtip ` set head)" "visited binded ur m p cs"
    by (rule visit_prefix [OF assms(1), of "as @ [b]" host hostip rt ur us binded head src dst m p s]) (use assms(2) in simp_all)
  have "tour_packet os host hostip rt ur us binded head (tour_wire src dst m p (as @ [b])) src s =
      Some (Inr (Go_on True head', logs (Sendto_in rt (tour_wire hostip b m p as) b # cs) s))"
    unfolding 1 using forward_tour_eq [OF assms(2), of os hostip rt m p b "logs cs s"] willing_call [OF assms(1)]
    by (simp add: Let_def)
  then show ?thesis using 2 by blast
qed

lemma visit_ends:
  assumes "willing os"
  shows "\<exists>cs head'. tour_packet os host hostip rt ur us binded head (tour_wire src dst m p []) src s =
      Some (Inr (Go_on True head', logs (Send us (string_bytes (take 1023 (end_message host))) # Sleep 5 # cs) s)) \<and>
    tgtip ` set head' = insert src (tgtip ` set head) \<and> visited binded ur m p cs"
proof -
  obtain cs head' where 1: "tour_packet os host hostip rt ur us binded head (tour_wire src dst m p []) src s =
      bnd (do_call (Sleep 5)) (\<lambda>_. bnd (send_text os us (end_message host)) (\<lambda>n.
         if n < 0 then ret (CLEANUP_THREADS head') else ret (Go_on True head'))) (logs cs s)"
    and 2: "tgtip ` set head' = insert src (tgtip ` set head)" "visited binded ur m p cs"
    by (rule visit_prefix [OF assms, of "[]" host hostip rt ur us binded head src dst m p s]) simp_all
  then show ?thesis using willing_call [OF assms] by (auto simp: send_text_def sys_def do_call_def)
qed

section \<open>The itinerary\<close>

record tour_node =
  nd_os :: os
  nd_host :: string
  nd_rt :: int
  nd_recv :: int
  nd_send :: int
  nd_binded :: bool
  nd_head :: "pingt list"
  nd_world :: world

text \<open>The node at address \<open>a\<close> handles a packet that came from \<open>src\<close> and goes back to its loop.\<close>

definition deliver :: "(u32 \<Rightarrow> tour_node) \<Rightarrow> u32 \<Rightarrow> byte list \<Rightarrow> u32 \<Rightarrow> (u32 \<Rightarrow> tour_node) option" where
  "deliver net a packet src =
     (let nd = net a
      in case tour_packet (nd_os nd) (nd_host nd) a (nd_rt nd) (nd_recv nd) (nd_send nd) (nd_binded nd) (nd_head nd) packet src (nd_world nd) of
           Some (Inr (Go_on b h, w)) \<Rightarrow> Some (net(a := nd\<lparr>nd_binded := b, nd_head := h, nd_world := w\<rparr>))
         | _ \<Rightarrow> None)"

text \<open>The route of a packet: the last call of a visit is the one that sends the packet on, or that ends the tour.\<close>

inductive tour_route :: "(u32 \<Rightarrow> tour_node) \<Rightarrow> u32 \<Rightarrow> byte list \<Rightarrow> u32 \<Rightarrow> u32 list \<Rightarrow> (u32 \<Rightarrow> tour_node) \<Rightarrow> bool" where
  tour_ends: "deliver net a packet src = Some net' \<Longrightarrow>
     hist (nd_world (net' a)) = Send (nd_send (net a)) (string_bytes (take 1023 (end_message (nd_host (net a))))) # h \<Longrightarrow>
     tour_route net src packet a [a] net'"
| tour_hop: "deliver net a packet src = Some net' \<Longrightarrow> hist (nd_world (net' a)) = Sendto_in (nd_rt (net a)) q b # h \<Longrightarrow>
     tour_route net' a q b r net'' \<Longrightarrow> tour_route net src packet a (a # r) net''"

inductive_cases tour_routeE: "tour_route net src packet a r net'"

text \<open>What the nodes of a route keep and gain: \<open>pairs\<close> are the hops, each from a sender to a visited address.\<close>

definition toured :: "u32 \<Rightarrow> u16 \<Rightarrow> (u32 \<times> u32) list \<Rightarrow> (u32 \<Rightarrow> tour_node) \<Rightarrow> (u32 \<Rightarrow> tour_node) \<Rightarrow> bool" where
  "toured m p hops net net' \<longleftrightarrow> (\<forall>v.
     nd_os (net' v) = nd_os (net v) \<and> nd_recv (net' v) = nd_recv (net v) \<and>
     tgtip ` set (nd_head (net' v)) = tgtip ` set (nd_head (net v)) \<union> {u. (u, v) \<in> set hops} \<and>
     set (hist (nd_world (net v))) \<subseteq> set (hist (nd_world (net' v))) \<and>
     nd_binded (net' v) = (nd_binded (net v) \<or> v \<in> snd ` set hops) \<and>
     (v \<in> snd ` set hops \<longrightarrow> nd_binded (net v) \<or>
        {Bind_in (nd_recv (net v)) p, Join_group (nd_recv (net v)) m 0} \<subseteq> set (hist (nd_world (net' v)))))"

lemma toured_trans:
  assumes "toured m p [(src, a)] net net'" and "toured m p hops net' net''"
  shows "toured m p ((src, a) # hops) net net''"
  unfolding toured_def
proof
  fix v
  from assms(1) have 1: "nd_os (net' v) = nd_os (net v)" "nd_recv (net' v) = nd_recv (net v)"
     "tgtip ` set (nd_head (net' v)) = tgtip ` set (nd_head (net v)) \<union> {u. u = src \<and> v = a}"
     "set (hist (nd_world (net v))) \<subseteq> set (hist (nd_world (net' v)))"
     "nd_binded (net' v) = (nd_binded (net v) \<or> v = a)"
     "v = a \<longrightarrow> nd_binded (net v) \<or>
        {Bind_in (nd_recv (net v)) p, Join_group (nd_recv (net v)) m 0} \<subseteq> set (hist (nd_world (net' v)))"
    by (simp_all add: toured_def)
  from assms(2) have 2: "nd_os (net'' v) = nd_os (net' v)" "nd_recv (net'' v) = nd_recv (net' v)"
     "tgtip ` set (nd_head (net'' v)) = tgtip ` set (nd_head (net' v)) \<union> {u. (u, v) \<in> set hops}"
     "set (hist (nd_world (net' v))) \<subseteq> set (hist (nd_world (net'' v)))"
     "nd_binded (net'' v) = (nd_binded (net' v) \<or> v \<in> snd ` set hops)"
     "v \<in> snd ` set hops \<longrightarrow> nd_binded (net' v) \<or>
        {Bind_in (nd_recv (net' v)) p, Join_group (nd_recv (net' v)) m 0} \<subseteq> set (hist (nd_world (net'' v)))"
    by (simp_all add: toured_def)
  have hops: "{u. (u, v) \<in> set ((src, a) # hops)} = {u. u = src \<and> v = a} \<union> {u. (u, v) \<in> set hops}"
      "snd ` set ((src, a) # hops) = insert a (snd ` set hops)" by auto
  have h: "set (hist (nd_world (net v))) \<subseteq> set (hist (nd_world (net'' v)))" using 1(4) 2(4) by blast
  have j: "v \<in> insert a (snd ` set hops) \<longrightarrow> nd_binded (net v) \<or>
      {Bind_in (nd_recv (net v)) p, Join_group (nd_recv (net v)) m 0} \<subseteq> set (hist (nd_world (net'' v)))"
    using 2(4,6) 1(6) unfolding 1(2,5) by (meson insert_iff subset_trans)
  show "nd_os (net'' v) = nd_os (net v) \<and> nd_recv (net'' v) = nd_recv (net v) \<and>
     tgtip ` set (nd_head (net'' v)) = tgtip ` set (nd_head (net v)) \<union> {u. (u, v) \<in> set ((src, a) # hops)} \<and>
     set (hist (nd_world (net v))) \<subseteq> set (hist (nd_world (net'' v))) \<and>
     nd_binded (net'' v) = (nd_binded (net v) \<or> v \<in> snd ` set ((src, a) # hops)) \<and>
     (v \<in> snd ` set ((src, a) # hops) \<longrightarrow> nd_binded (net v) \<or>
        {Bind_in (nd_recv (net v)) p, Join_group (nd_recv (net v)) m 0} \<subseteq> set (hist (nd_world (net'' v))))"
    unfolding hops using h j by (simp only: 1(1-3,5) 2(1-3,5) Un_assoc insert_iff simp_thms disj_assoc)
qed

lemma deliver_toured:
  assumes "tour_packet (nd_os (net a)) (nd_host (net a)) a (nd_rt (net a)) (nd_recv (net a)) (nd_send (net a)) (nd_binded (net a))
      (nd_head (net a)) packet src (nd_world (net a)) = Some (Inr (Go_on True head', logs cs (nd_world (net a))))"
    and "tgtip ` set head' = insert src (tgtip ` set (nd_head (net a)))" and "visited (nd_binded (net a)) (nd_recv (net a)) m p cs"
    and "net' = net(a := (net a)\<lparr>nd_binded := True, nd_head := head', nd_world := logs cs (nd_world (net a))\<rparr>)"
  shows "deliver net a packet src = Some net'" and "toured m p [(src, a)] net net'"
    and "hist (nd_world (net' a)) = cs @ hist (nd_world (net a))"
  using assms by (auto simp: deliver_def toured_def visited_def Let_def)

lemma tour_route_wire:
  assumes "\<forall>a. willing (nd_os (net a))" and "length as \<le> TOUR_MAXIPS"
  shows "\<exists>net'. tour_route net src (tour_wire src a m p (rev as)) a (a # as) net' \<and> toured m p (zip (src # a # as) (a # as)) net net'"
  using assms
proof (induction as arbitrary: net src a)
  case Nil
  let ?nd = "net a"
  obtain cs head' where v: "tour_packet (nd_os ?nd) (nd_host ?nd) a (nd_rt ?nd) (nd_recv ?nd) (nd_send ?nd) (nd_binded ?nd) (nd_head ?nd)
      (tour_wire src a m p []) src (nd_world ?nd) =
      Some (Inr (Go_on True head', logs (Send (nd_send ?nd) (string_bytes (take 1023 (end_message (nd_host ?nd)))) # Sleep 5 # cs) (nd_world ?nd)))"
      "tgtip ` set head' = insert src (tgtip ` set (nd_head ?nd))" "visited (nd_binded ?nd) (nd_recv ?nd) m p cs"
    using visit_ends [of "nd_os ?nd"] Nil.prems by blast
  then have "visited (nd_binded ?nd) (nd_recv ?nd) m p
      (Send (nd_send ?nd) (string_bytes (take 1023 (end_message (nd_host ?nd)))) # Sleep 5 # cs)" by (auto simp: visited_def)
  note d = deliver_toured [where net = net, OF v(1,2) this refl]
  show ?case using tour_ends [OF d(1)] d(2,3) by simp blast
next
  case (Cons b as)
  let ?nd = "net a"
  obtain cs head' where v: "tour_packet (nd_os ?nd) (nd_host ?nd) a (nd_rt ?nd) (nd_recv ?nd) (nd_send ?nd) (nd_binded ?nd) (nd_head ?nd)
      (tour_wire src a m p (rev as @ [b])) src (nd_world ?nd) =
      Some (Inr (Go_on True head', logs (Sendto_in (nd_rt ?nd) (tour_wire a b m p (rev as)) b # cs) (nd_world ?nd)))"
      "tgtip ` set head' = insert src (tgtip ` set (nd_head ?nd))" "visited (nd_binded ?nd) (nd_recv ?nd) m p cs"
    using visit_forwards [of "nd_os ?nd" "rev as"] Cons.prems by auto blast
  define net1 where "net1 = net(a := ?nd\<lparr>nd_binded := True, nd_head := head',
      nd_world := logs (Sendto_in (nd_rt ?nd) (tour_wire a b m p (rev as)) b # cs) (nd_world ?nd)\<rparr>)"
  have "visited (nd_binded ?nd) (nd_recv ?nd) m p (Sendto_in (nd_rt ?nd) (tour_wire a b m p (rev as)) b # cs)"
    using v(3) by (auto simp: visited_def)
  note d = deliver_toured [where net = net, OF v(1,2) this net1_def]
  have "\<forall>v. willing (nd_os (net1 v))" using Cons.prems(1) by (simp add: net1_def)
  then obtain net' where r: "tour_route net1 a (tour_wire a b m p (rev as)) b (b # as) net'"
      "toured m p (zip (a # b # as) (b # as)) net1 net'"
    using Cons.IH [of net1 a b] Cons.prems(2) by auto
  have "tour_route net src (tour_wire src a m p (rev (b # as))) a (a # b # as) net'"
    using tour_hop [OF d(1) _ r(1)] d(3) by simp
  moreover have "toured m p (zip (src # a # b # as) (a # b # as)) net net'" using toured_trans [OF d(2) r(2)] by simp
  ultimately show ?case by blast
qed

definition resolves :: "os \<Rightarrow> (string \<Rightarrow> u32) \<Rightarrow> string list \<Rightarrow> bool" where
  "resolves os ipof hosts \<longleftrightarrow> (\<forall>name \<in> set hosts. \<forall>h. \<exists>r. os_hostbyname os (Gethostbyname name # h) = Some (ipof name # r))"

lemma fill_ips_eq:
  assumes "resolves os ipof hosts" and "length hosts \<le> TOUR_MAXIPS"
  shows "fill_ips os filled hosts s = Some (Inr (Some (rev (map ipof hosts) @ filled), logs (rev (map Gethostbyname hosts)) s))"
  using assms
proof (induction hosts arbitrary: filled s)
  case (Cons name hosts)
  obtain r where r: "os_hostbyname os (Gethostbyname name # hist s) = Some (ipof name # r)"
    using Cons.prems(1) by (simp add: resolves_def) blast
  have "resolves os ipof hosts" "length hosts \<le> TOUR_MAXIPS" "length hosts < TOUR_MAXIPS" using Cons.prems by (auto simp: resolves_def)
  with r show ?case using Cons.IH by (simp add: getipbyhost_def sys_hostbyname_def)
qed simp

lemma start_tour_eq:
  assumes os: "willing os" and res: "resolves os ipof hosts" and hosts: "hosts \<noteq> []" "length hosts \<le> TOUR_MAXIPS"
    and p: "p = os_port os (Getsockname ur # Bind_in ur 0 # hist s)"
    and q: "q = tour_wire hostip (ipof (hd hosts)) MCAST_ADDR p (rev (map ipof (tl hosts)))"
  shows "\<exists>n cs. start_tour os hostip rt ur us hosts s = Some (Inr (n, logs (Sendto_in rt q (ipof (hd hosts)) # cs) s)) \<and> 0 < n"
proof -
  note w = willing_call [OF os]
  obtain a as where h: "hosts = a # as" using hosts by (cases hosts) auto
  have pos: "\<not> (uint p :: int) < 0" by simp
  let ?s = "logs (rev (map Gethostbyname hosts) @ [Connect_in us MCAST_ADDR p, Join_group ur MCAST_ADDR 0, Getsockname ur, Bind_in ur 0]) s"
  have "start_tour os hostip rt ur us hosts s = forward_tour os hostip rt
      \<lparr>mcastip = MCAST_ADDR, mcastport = p, tour_len = of_nat (length hosts), ips = rev (map ipof hosts)\<rparr> ?s"
    using pos p by (simp add: start_tour_def bind_port_def mcast_join_def sys_def w fill_ips_eq [OF res hosts(2)] log_call_logs)
  also have "\<dots> = forward_tour os hostip rt
      \<lparr>mcastip = MCAST_ADDR, mcastport = p, tour_len = of_nat (Suc (length (rev (map ipof as)))), ips = rev (map ipof as) @ [ipof a]\<rparr> ?s"
    by (simp add: h)
  also have "\<dots> = (let c = Sendto_in rt q (ipof a) in Some (Inr (os_int os (c # hist ?s), log_call c ?s)))"
    by (subst forward_tour_eq) (use hosts(2) in \<open>simp_all add: h q Let_def w\<close>)
  finally show ?thesis using tour_wire_nonempty by (auto simp: Let_def h w q)
qed

text \<open>C1: a tour that is started with resolvable host names, on hosts where the system calls succeed, visits exactly
  these hosts in the order of the command line (a host may occur more than once) and ends at the last one with the multicast
  message. Every visited host has then bound the multicast port of the tour and joined its group, if it had not before, and
  pings exactly the hosts from which the packet came to it, besides those it pinged before.\<close>

theorem tour_itinerary:
  assumes "willing os" and "\<forall>a. willing (nd_os (net a))" and "resolves os ipof hosts"
    and "hosts \<noteq> []" and "length hosts \<le> TOUR_MAXIPS" and p: "p = os_port os (Getsockname ur # Bind_in ur 0 # hist s)"
  shows "\<exists>n cs q net'. start_tour os hostip rt ur us hosts s = Some (Inr (n, logs (Sendto_in rt q (ipof (hd hosts)) # cs) s)) \<and> n > 0 \<and>
    tour_route net hostip q (ipof (hd hosts)) (map ipof hosts) net' \<and>
    toured MCAST_ADDR p (zip (hostip # map ipof hosts) (map ipof hosts)) net net'"
proof -
  obtain a as where h: "hosts = a # as" using assms(4) by (cases hosts) auto
  obtain n cs where "start_tour os hostip rt ur us hosts s =
      Some (Inr (n, logs (Sendto_in rt (tour_wire hostip (ipof a) MCAST_ADDR p (rev (map ipof as))) (ipof a) # cs) s))" "0 < n"
    using start_tour_eq [OF assms(1,3-5) p refl, of hostip rt us] by (auto simp: h)
  moreover obtain net' where "tour_route net hostip (tour_wire hostip (ipof a) MCAST_ADDR p (rev (map ipof as))) (ipof a) (ipof a # map ipof as) net'"
      "toured MCAST_ADDR p (zip (hostip # ipof a # map ipof as) (ipof a # map ipof as)) net net'"
    using tour_route_wire [OF assms(2), of "map ipof as" hostip "ipof a" MCAST_ADDR p] assms(5) by (auto simp: h)
  ultimately show ?thesis unfolding h list.map list.sel by blast
qed

definition willing_os :: os where
  "willing_os = demo_os\<lparr>os_int := (\<lambda>h. case h of Calloc _ _ # _ \<Rightarrow> int (length h)
     | Send _ bs # _ \<Rightarrow> int (length bs) | Sendto_in _ bs _ # _ \<Rightarrow> int (length bs) | _ \<Rightarrow> 0),
     os_hostbyname := (\<lambda>h. case h of Gethostbyname name # _ \<Rightarrow> Some [of_nat (length name)] | _ \<Rightarrow> None)\<rparr>"

definition demo_node :: tour_node where
  "demo_node = \<lparr>nd_os = willing_os, nd_host = ''vm2'', nd_rt = 3, nd_recv = 4, nd_send = 5, nd_binded = False, nd_head = [],
     nd_world = \<lparr>hist = []\<rparr>\<rparr>"

lemma willing_os_willing: "willing willing_os"
  by (auto simp: willing_def willing_os_def split: call.split)

theorem tour_itinerary_witness:
  "\<exists>n cs q net'. start_tour willing_os 9 3 4 5 [''a'', ''bb'', ''a''] \<lparr>hist = []\<rparr> =
      Some (Inr (n, logs (Sendto_in 3 q (of_nat (length (hd [''a'', ''bb'', ''a'']))) # cs) \<lparr>hist = []\<rparr>)) \<and> n > 0 \<and>
    tour_route (\<lambda>_. demo_node) 9 q (of_nat (length (hd [''a'', ''bb'', ''a'']))) (map (\<lambda>x. of_nat (length x)) [''a'', ''bb'', ''a'']) net' \<and>
    toured MCAST_ADDR 0 (zip (9 # map (\<lambda>x. of_nat (length x)) [''a'', ''bb'', ''a'']) (map (\<lambda>x. of_nat (length x)) [''a'', ''bb'', ''a'']))
      (\<lambda>_. demo_node) net'"
  by (rule tour_itinerary [OF willing_os_willing])
    (simp_all add: demo_node_def willing_os_willing, simp_all add: resolves_def willing_os_def demo_os_def)

section \<open>The bounds of the message\<close>

lemma no_repeats_iff: "no_repeats hosts \<longleftrightarrow> (\<forall>i. Suc i < length hosts \<longrightarrow> hosts ! i \<noteq> hosts ! Suc i)"
proof -
  have "no_repeats hosts = successively (\<noteq>) hosts" by (induction hosts rule: no_repeats.induct) auto
  then show ?thesis by (simp add: successively_conv_nth)
qed

lemma fill_ips_runs:
  assumes "\<forall>h. os_hostbyname os h \<noteq> Some []" and "length hosts \<le> TOUR_MAXIPS"
  shows "\<exists>r cs. fill_ips os filled hosts s = Some (Inr (r, logs cs s)) \<and> (\<forall>as. r = Some as \<longrightarrow> length as = length hosts + length filled)"
  using assms(2)
proof (induction hosts arbitrary: filled s)
  case Nil
  then show ?case by (auto intro: exI [of _ "[]"])
next
  case (Cons name hosts)
  let ?h = "Gethostbyname name # hist s"
  show ?case
  proof (cases "os_hostbyname os ?h")
    case None
    then show ?thesis by (auto simp: getipbyhost_def sys_hostbyname_def log_call_logs)
  next
    case (Some l)
    then obtain a r where "os_hostbyname os ?h = Some (a # r)" using assms(1) by (cases l) auto
    then have "fill_ips os filled (name # hosts) s = fill_ips os (a # filled) hosts (logs [Gethostbyname name] s)"
      using Cons.prems by (simp add: getipbyhost_def sys_hostbyname_def log_call_logs)
    then show ?thesis using Cons.IH [of "a # filled" "logs [Gethostbyname name] s"] Cons.prems by auto
  qed
qed

text \<open>C8: the argument check accepts exactly the host lists that fit in one IP packet and name no host twice in a
  row, and with such a list \<open>start_tour\<close> stays inside its message buffer: it returns, and if it reports success it has sent a
  packet of at most 65535 bytes that carries all but the first of the addresses.\<close>

theorem tour_start_bounds:
  assumes "\<forall>h. os_hostbyname os h \<noteq> Some []" and "hosts \<noteq> []"
  shows "(valid_args (prog # hosts) \<longleftrightarrow> length hosts \<le> TOUR_MAXIPS \<and> (\<forall>i. Suc i < length hosts \<longrightarrow> hosts ! i \<noteq> hosts ! Suc i)) \<and>
    (valid_args (prog # hosts) \<longrightarrow> runs_to (start_tour os hostip rt ur us hosts) s (\<lambda>r t. r \<noteq> 0 \<longrightarrow>
      (\<exists>dst port as cs. hist t = Sendto_in rt (tour_wire hostip dst MCAST_ADDR port as) dst # cs \<and> length as = length hosts - 1 \<and>
        length (tour_wire hostip dst MCAST_ADDR port as) \<le> 65535)))"
proof (intro conjI impI)
  show v: "valid_args (prog # hosts) \<longleftrightarrow> length hosts \<le> TOUR_MAXIPS \<and> (\<forall>i. Suc i < length hosts \<longrightarrow> hosts ! i \<noteq> hosts ! Suc i)"
    by (auto simp: valid_args_def no_repeats_iff)
  assume "valid_args (prog # hosts)"
  then have len: "length hosts \<le> TOUR_MAXIPS" using v by blast
  let ?ok = "\<lambda>r t. r \<noteq> 0 \<longrightarrow> (\<exists>dst port as cs. hist t = Sendto_in rt (tour_wire hostip dst MCAST_ADDR port as) dst # cs \<and>
      length as = length hosts - 1 \<and> length (tour_wire hostip dst MCAST_ADDR port as) \<le> 65535)"
  have fwd: "runs_to (forward_tour os hostip rt \<lparr>mcastip = MCAST_ADDR, mcastport = p, tour_len = of_nat (length hosts), ips = filled\<rparr>) w ?ok"
    if "length filled = length hosts" for p filled w
  proof -
    have "filled \<noteq> []" using that assms(2) by auto
    then obtain as a where f: "filled = as @ [a]" by (cases filled rule: rev_cases) auto
    then have n: "length hosts = Suc (length as)" using that by simp
    have "length as < TOUR_MAXIPS" using n len by simp
    moreover from this have "length (tour_wire hostip a MCAST_ADDR p as) \<le> 65535" using tour_wire_fields(3) [of as] by simp
    ultimately show ?thesis unfolding runs_to_def f n by (subst forward_tour_eq) (auto simp: Let_def)
  qed
  have fill: "runs_to (bnd (fill_ips os [] hosts) (\<lambda>r. case r of None \<Rightarrow> ret 0
         | Some filled \<Rightarrow> forward_tour os hostip rt
             \<lparr>mcastip = MCAST_ADDR, mcastport = p, tour_len = of_nat (length hosts), ips = filled\<rparr>)) w ?ok" for p w
  proof -
    obtain r cs where r: "fill_ips os [] hosts w = Some (Inr (r, logs cs w))" "\<forall>as. r = Some as \<longrightarrow> length as = length hosts"
      using fill_ips_runs [OF assms(1) len, of "[]" w] by auto
    then show ?thesis using fwd by (cases r) (simp_all add: runs_to_eq [of "fill_ips os [] hosts", OF r(1)])
  qed
  have "runs_to (bind_port os ur 0) s (\<lambda>port t. True)" by (auto simp: bind_port_def runs_to_def sys_def bnd_def)
  then show "runs_to (start_tour os hostip rt ur us hosts) s ?ok"
    unfolding start_tour_def runs_to_bnd using fill by (auto simp: mcast_join_def elim!: runs_to_mono)
qed

lemma forward_tour_trusts:
  assumes "k = sint (tour_len tour)"
  shows "int TOUR_MAXIPS < k \<Longrightarrow> forward_tour os hostip rt tour s = Some (Inl OutOfBounds)"
    and "0 < k \<Longrightarrow> k \<le> int TOUR_MAXIPS \<Longrightarrow> int (length (ips tour)) < k \<Longrightarrow> willing os \<Longrightarrow>
      \<exists>q n. forward_tour os hostip rt tour s = Some (Inr (n, logs [Sendto_in rt q 0] s)) \<and> n \<noteq> 0"
proof -
  show "forward_tour os hostip rt tour s = Some (Inl OutOfBounds)" if "int TOUR_MAXIPS < k"
    using that assms by (simp add: forward_tour_def get_ip_def)
  show "\<exists>q n. forward_tour os hostip rt tour s = Some (Inr (n, logs [Sendto_in rt q 0] s)) \<and> n \<noteq> 0"
    if "0 < k" "k \<le> int TOUR_MAXIPS" "int (length (ips tour)) < k" "willing os"
  proof -
    have "get_ip tour (sint (tour_len tour) - 1) = Inr 0" using that assms by (auto simp: get_ip_def)
    moreover have "n \<le> length (tour_mem h n)" for h n by (simp add: tour_mem_def)
    ultimately show ?thesis using willing_call [OF that(4)]
      by (auto simp: forward_tour_def Let_def send_ip_def get_bytes_def sys_def log_call_logs ip_wire.enc_length)
  qed
qed

text \<open>C31: the number of addresses in a received packet is not compared with the packet. When it is more than a packet can
  hold, the node reads behind its receive buffer; when it is only more than this packet holds, the packet is sent on to the
  address 0.0.0.0.\<close>

theorem tour_len_trusted:
  assumes "willing os" and "28 \<le> length packet" and "28 \<le> unat (ntohs (ip_len (dec_ip packet)))" and "ip_id (dec_ip packet) = htons IPID_TOUR"
    and tour: "tour = dec_tour (drop 20 packet)" and k: "k = sint (ntohs (tour_len tour))"
  shows "(int TOUR_MAXIPS < k \<longrightarrow> tour_packet os host hostip rt ur us binded head packet src s = Some (Inl OutOfBounds)) \<and>
    (int (length (ips tour)) < k \<and> k \<le> int TOUR_MAXIPS \<longrightarrow>
      (\<exists>head' q cs. tour_packet os host hostip rt ur us binded head packet src s =
        Some (Inr (Go_on True head', logs (Sendto_in rt q 0 # cs) s))))"
proof -
  define tour' where "tour' = tour\<lparr>tour_len := ntohs (tour_len tour)\<rparr>"
  have k': "k = sint (tour_len tour')" and ips: "ips tour' = ips tour" by (simp_all add: tour'_def k)
  obtain cs head' where v: "tour_packet os host hostip rt ur us binded head packet src s =
      (if k > 0 then bnd (forward_tour os hostip rt tour') (\<lambda>sent. if sent = 0 then ret (CLEANUP_THREADS head') else ret (Go_on True head')) (logs cs s)
       else bnd (do_call (Sleep 5)) (\<lambda>_. bnd (send_text os us (end_message host)) (\<lambda>n.
         if n < 0 then ret (CLEANUP_THREADS head') else ret (Go_on True head'))) (logs cs s))"
    by (rule visit_node_prefix [OF assms(1) tour'_def, of host hostip rt ur us binded head "dec_ip packet" src s])
      (use assms(2-4) in \<open>simp add: tour_packet_def tour [symmetric] k' flip: not_le\<close>)
  show ?thesis
  proof (intro conjI impI)
    assume "int TOUR_MAXIPS < k"
    then show "tour_packet os host hostip rt ur us binded head packet src s = Some (Inl OutOfBounds)"
      using forward_tour_trusts(1) [OF k', of os hostip rt "logs cs s"] v by (simp add: bnd_def)
  next
    assume a: "int (length (ips tour)) < k \<and> k \<le> int TOUR_MAXIPS"
    then have "0 < k" by linarith
    then obtain q n where "forward_tour os hostip rt tour' (logs cs s) = Some (Inr (n, logs [Sendto_in rt q 0] (logs cs s)))" "n \<noteq> 0"
      using forward_tour_trusts(2) [OF k' _ _ _ assms(1)] a ips by metis
    then show "\<exists>head' q cs. tour_packet os host hostip rt ur us binded head packet src s =
        Some (Inr (Go_on True head', logs (Sendto_in rt q 0 # cs) s))"
      using v \<open>0 < k\<close> by auto
  qed
qed

definition short_packet :: "u16 \<Rightarrow> byte list" where
  "short_packet n = enc_ip (tour_ip 1 2 8) @ enc_tour \<lparr>mcastip = 3, mcastport = 4, tour_len = htons n, ips = []\<rparr>"

lemma short_packet_fields:
  "length (short_packet n) = 28" "dec_ip (short_packet n) = tour_ip 1 2 8"
  "dec_tour (drop 20 (short_packet n)) = \<lparr>mcastip = 3, mcastport = 4, tour_len = htons n, ips = []\<rparr>"
  by (simp_all add: short_packet_def ip_wire.enc_length ip_wire.dec_enc_append)

theorem tour_len_trusted_witness:
  "tour_packet willing_os ''vm2'' 2 3 4 5 False [] (short_packet 16377) 1 \<lparr>hist = []\<rparr> = Some (Inl OutOfBounds) \<and>
   (\<exists>head' q cs. tour_packet willing_os ''vm2'' 2 3 4 5 False [] (short_packet 1) 1 \<lparr>hist = []\<rparr> =
     Some (Inr (Go_on True head', logs (Sendto_in 3 q 0 # cs) \<lparr>hist = []\<rparr>)))"
proof -
  note t = tour_len_trusted [OF willing_os_willing, of "short_packet n" _ _ "''vm2''" 2 3 4 5 False "[]" 1 "\<lparr>hist = []\<rparr>" for n]
  show ?thesis using t [of 16377, OF _ _ _ refl refl] t [of 1, OF _ _ _ refl refl] by (simp add: short_packet_fields tour_ip_def)
qed

theorem tour_start_bounds_witness:
  "valid_args (''tour'' # [''a'', ''bb'']) \<and>
    runs_to (start_tour willing_os 9 3 4 5 [''a'', ''bb'']) \<lparr>hist = []\<rparr> (\<lambda>r t. r \<noteq> 0 \<longrightarrow>
      (\<exists>dst port as cs. hist t = Sendto_in 3 (tour_wire 9 dst MCAST_ADDR port as) dst # cs \<and> length as = length [''a'', ''bb''] - 1 \<and>
        length (tour_wire 9 dst MCAST_ADDR port as) \<le> 65535))"
proof -
  have "\<forall>h. os_hostbyname willing_os h \<noteq> Some []" by (auto simp: willing_os_def demo_os_def split: list.split call.split)
  moreover have "valid_args (''tour'' # [''a'', ''bb''])" by (simp add: valid_args_def)
  ultimately show ?thesis using tour_start_bounds [of willing_os "[''a'', ''bb'']" "''tour''" 9 3 4 5 "\<lparr>hist = []\<rparr>"] by blast
qed

section \<open>The end of a tour\<close>

text \<open>The data that was received and printed with \<open>%s\<close> was shorter than the array it was received into.\<close>

definition short_data :: "os \<Rightarrow> int \<Rightarrow> nat \<Rightarrow> bool" where
  "short_data os fd cap \<longleftrightarrow> (\<forall>h bs. os_recv os (Recvfrom fd cap # h) = Some bs \<longrightarrow> length bs < cap)"

lemma show_multicast_short: "length buf < cap \<Longrightarrow> \<exists>x. show_multicast host cap buf s = Some (Inr ((), logs [Out x] s))"
  by (auto simp: show_multicast_def c_string_def do_call_def log_call_logs)

lemma end_loop_unfold:
  assumes "fd_ok ur"
  shows "end_loop os host ur s =
    (let h = Select [ur] (Some 5) # hist s
     in if os_int os h < 0 then Some (Inr (0, logs [Select [ur] (Some 5)] s))
        else if os_int os h = 0 then Some (Inr (1, logs [Select [ur] (Some 5)] s))
        else let h2 = Recvfrom ur IP_MSS # h; t = logs [Recvfrom ur IP_MSS, Select [ur] (Some 5)] s
          in case os_recv os h2 of None \<Rightarrow> Some (Inr (0, t))
             | Some bs \<Rightarrow> bnd (show_multicast host IP_MSS (take IP_MSS bs)) (\<lambda>_. end_loop os host ur) t)"
  using assms
  by (subst end_loop.simps)
    (auto simp: fd_set_add_def sys_select_def sys_recvfrom_in_def Let_def log_call_logs bnd_def split: option.split sum.split)

lemma end_loop_runs:
  assumes fd: "fd_ok ur" and short: "short_data os ur IP_MSS"
    and silent: "\<forall>h. n \<le> length h \<longrightarrow> os_int os (Select [ur] (Some 5) # h) \<le> 0"
  shows "runs_to (end_loop os host ur) s (\<lambda>r t. (r = 0 \<or> r = 1) \<and> closes t = closes s)"
proof (induction "n - length (hist s)" arbitrary: s rule: less_induct)
  case less
  let ?h = "Select [ur] (Some 5) # hist s" and ?t = "logs [Recvfrom ur IP_MSS, Select [ur] (Some 5)] s"
  note unf = end_loop_unfold [OF fd, of os host s]
  consider "os_int os ?h \<le> 0" | bs where "0 < os_int os ?h" "os_recv os (Recvfrom ur IP_MSS # ?h) = Some bs"
    | "0 < os_int os ?h" "os_recv os (Recvfrom ur IP_MSS # ?h) = None" by fastforce
  then show ?case
  proof cases
    case 2
    then have lt: "length (hist s) < n" using silent by (meson not_le leI)
    have bs: "length bs < IP_MSS" using short 2(2) by (auto simp: short_data_def)
    then obtain x where x: "show_multicast host IP_MSS bs ?t = Some (Inr ((), logs [Out x] ?t))" using show_multicast_short by blast
    have "end_loop os host ur s = end_loop os host ur (logs [Out x] ?t)" using 2 bs x by (simp add: unf Let_def)
    moreover have "runs_to (end_loop os host ur) (logs [Out x] ?t) (\<lambda>r t. (r = 0 \<or> r = 1) \<and> closes t = closes s)"
      using less [of "logs [Out x] ?t"] lt by (simp add: closes_def)
    ultimately show ?thesis by (simp add: runs_to_def)
  qed (simp_all add: runs_to_def unf Let_def closes_def)
qed

text \<open>C15: a node that announces itself after the end of the tour prints what the others send and returns as soon as
  the group has been silent for five seconds: if from some point on \<open>select\<close> no longer reports a message, \<open>end_tour\<close> returns.\<close>

theorem tour_end_terminates:
  assumes "fd_ok ur" and "short_data os ur IP_MSS" and "\<forall>h. n \<le> length h \<longrightarrow> os_int os (Select [ur] (Some 5) # h) \<le> 0"
  shows "runs_to (end_tour os host ur us) s (\<lambda>r t. (r = 0 \<or> r = 1) \<and> closes t = closes s)"
proof -
  have "runs_to (end_loop os host ur) w (\<lambda>r t. (r = 0 \<or> r = 1) \<and> closes t = closes w)" for w using end_loop_runs [OF assms] .
  from this [of "log_call (Send us (string_bytes (take 1023 (member_message host)))) s"]
  show ?thesis by (simp add: end_tour_def send_text_def)
qed

text \<open>Two messages, then silence.\<close>

definition two_messages_os :: os where
  "two_messages_os = demo_os\<lparr>os_int := (\<lambda>h. case h of Select _ _ # r \<Rightarrow> if length r < 6 then 1 else 0 | _ \<Rightarrow> 3),
     os_recv := (\<lambda>_. Some [72, 105])\<rparr>"

theorem tour_end_terminates_witness:
  "runs_to (end_tour two_messages_os ''vm2'' 4 5) \<lparr>hist = []\<rparr> (\<lambda>r t. (r = 0 \<or> r = 1) \<and> closes t = closes \<lparr>hist = []\<rparr>)"
  by (rule tour_end_terminates [where n = 6]) (auto simp: fd_ok_def short_data_def two_messages_os_def)

section \<open>The sockets of the application\<close>

text \<open>The descriptors that \<open>socket\<close> has given, the latest first, and programs that neither open nor close one.\<close>

fun opened :: "os \<Rightarrow> call list \<Rightarrow> int list" where
  "opened os [] = []"
| "opened os (Socket d t p # h) = (if os_int os (Socket d t p # h) < 0 then opened os h else os_int os (Socket d t p # h) # opened os h)"
| "opened os (_ # h) = opened os h"

fun fd_neutral :: "call \<Rightarrow> bool" where
  "fd_neutral (Socket _ _ _) = False"
| "fd_neutral (Close _) = False"
| "fd_neutral _ = True"

definition same_fds :: "'a world_scheme \<Rightarrow> stop + 'b \<times> 'a world_scheme \<Rightarrow> bool" where
  "same_fds s y \<longleftrightarrow> (\<forall>x t. y = Inr (x, t) \<longrightarrow> (\<exists>cs. hist t = cs @ hist s \<and> list_all fd_neutral cs))"

definition keeps_fds :: "('a world_scheme, 'b) prog \<Rightarrow> bool" where
  "keeps_fds m \<longleftrightarrow> (\<forall>s y. m s = Some y \<longrightarrow> same_fds s y)"

lemma keeps_fds_def': "keeps_fds m \<longleftrightarrow> (\<forall>s x t. m s = Some (Inr (x, t)) \<longrightarrow> (\<exists>cs. hist t = cs @ hist s \<and> list_all fd_neutral cs))"
  by (auto simp: keeps_fds_def same_fds_def)

lemma opened_neutral: "list_all fd_neutral cs \<Longrightarrow> opened os (cs @ h) = opened os h"
proof (induction cs)
  case (Cons c cs)
  then show ?case by (cases c) simp_all
qed simp

lemma closes_neutral: "list_all fd_neutral cs \<Longrightarrow> filter is_close (cs @ h) = filter is_close h"
proof (induction cs)
  case (Cons c cs)
  then show ?case by (cases c) simp_all
qed simp

lemma keeps_fdsD:
  assumes "keeps_fds m" and "m s = Some (Inr (x, t))"
  shows "closes t = closes s" and "opened os (hist t) = opened os (hist s)"
  using assms closes_neutral opened_neutral unfolding keeps_fds_def' closes_def by metis+

named_theorems keeps_fds_intros \<open>programs that open and close no descriptor\<close>

lemma keeps_fds_basic [keeps_fds_intros]:
  "keeps_fds (ret x)" "keeps_fds (\<lambda>s. Some (Inr (x, s)))" "keeps_fds (halt e)" "keeps_fds (pure r)"
  by (auto simp: keeps_fds_def' pure_def split: sum.split)

lemma keeps_fds_sys [keeps_fds_intros]:
  "fd_neutral c \<Longrightarrow> keeps_fds (sys os c)" "fd_neutral c \<Longrightarrow> keeps_fds (do_call c)"
  "keeps_fds (sys_select os fds tmo)" "keeps_fds (sys_recvfrom_in os fd n)" "keeps_fds (sys_hostbyname os name)"
  "keeps_fds (sys_hostbyaddr os a)"
  by (auto simp: keeps_fds_def' sys_defs sys_hostbyname_def sys_hostbyaddr_def intro: exI [of _ "[x]" for x])

lemma keeps_fds_bnd [keeps_fds_intros]:
  assumes "keeps_fds m" and "\<And>x. keeps_fds (f x)"
  shows "keeps_fds (bnd m f)"
  unfolding keeps_fds_def'
proof (intro allI impI)
  fix s y t assume "bnd m f s = Some (Inr (y, t))"
  then obtain x s' where "m s = Some (Inr (x, s'))" "f x s' = Some (Inr (y, t))" by (auto simp: bnd_eq_Inr)
  then obtain c1 c2 where "hist s' = c1 @ hist s" "list_all fd_neutral c1" "hist t = c2 @ hist s'" "list_all fd_neutral c2"
    using assms unfolding keeps_fds_def' by meson
  then show "\<exists>cs. hist t = cs @ hist s \<and> list_all fd_neutral cs" by (intro exI [of _ "c2 @ c1"]) simp
qed

lemma keeps_fds_if [keeps_fds_intros]: "(b \<Longrightarrow> keeps_fds m) \<Longrightarrow> (\<not> b \<Longrightarrow> keeps_fds k) \<Longrightarrow> keeps_fds (if b then m else k)"
  by simp

lemma keeps_fds_option [keeps_fds_intros]:
  "keeps_fds m \<Longrightarrow> (\<And>x. keeps_fds (f x)) \<Longrightarrow> keeps_fds (case r of None \<Rightarrow> m | Some x \<Rightarrow> f x)"
  by (simp split: option.split)

lemma keeps_fds_list [keeps_fds_intros]:
  "keeps_fds m \<Longrightarrow> (\<And>x xs. keeps_fds (f x xs)) \<Longrightarrow> keeps_fds (case r of [] \<Rightarrow> m | x # xs \<Rightarrow> f x xs)"
  by (simp split: list.split)

lemma keeps_fds_prod [keeps_fds_intros]:
  "(\<And>x y. keeps_fds (f x y)) \<Longrightarrow> keeps_fds (case r of (x, y) \<Rightarrow> f x y)"
  by (simp split: prod.split)

text \<open>A program that looks at the state itself.\<close>

lemma keeps_fds_state: "(\<And>s. keeps_fds (f s)) \<Longrightarrow> keeps_fds (\<lambda>s. f s s)"
  by (simp add: keeps_fds_def')

lemma keeps_fds_if_state [keeps_fds_intros]:
  "keeps_fds m \<Longrightarrow> keeps_fds k \<Longrightarrow> keeps_fds (\<lambda>s. if b s then m s else k s)"
  by (simp add: keeps_fds_def')

lemma keeps_fds_option_state [keeps_fds_intros]:
  "keeps_fds m \<Longrightarrow> (\<And>x. keeps_fds (f x)) \<Longrightarrow> keeps_fds (\<lambda>s. case r of None \<Rightarrow> m s | Some x \<Rightarrow> f x s)"
  by (cases r) simp_all

lemma keeps_fds_next [keeps_fds_intros]:
  assumes "\<And>b h. keeps_fds (f b h)" and "\<And>h. keeps_fds (g h)" and "\<And>h. keeps_fds (k h)"
  shows "keeps_fds (\<lambda>s. case x of Go_on b h \<Rightarrow> f b h s | Tour_ended h \<Rightarrow> g h s | CLEANUP_THREADS h \<Rightarrow> k h s)"
    and "keeps_fds (case x of Go_on b h \<Rightarrow> f b h | Tour_ended h \<Rightarrow> g h | CLEANUP_THREADS h \<Rightarrow> k h)"
  using assms by (cases x; simp)+

lemma keeps_fds_ret_state [keeps_fds_intros]: "keeps_fds (\<lambda>s. ret (f s) s)"
  by (rule keeps_fds_state) (rule keeps_fds_basic)

lemma keeps_fds_setup:
  "keeps_fds (bind_port os fd port)" "keeps_fds (mcast_join os fd ip i)" "keeps_fds (getipbyhost os name)"
  "keeps_fds (forward_tour os hostip rt tour)" "keeps_fds (send_text os fd str)" "keeps_fds (show_multicast host cap buf)"
  by (auto simp: bind_port_def mcast_join_def getipbyhost_def forward_tour_def send_ip_def send_text_def show_multicast_def Let_def
      intro!: keeps_fds_intros)

declare keeps_fds_setup [keeps_fds_intros]

lemma keeps_fds_fill_ips [keeps_fds_intros]: "keeps_fds (fill_ips os filled hosts)"
  by (induction os filled hosts rule: fill_ips.induct) (auto intro!: keeps_fds_intros)

lemma keeps_fds_pingt [keeps_fds_intros]: "keeps_fds (create_pingt os head ip)" "keeps_fds (destroy_pingt os head)"
proof -
  show "keeps_fds (create_pingt os head ip)" by (auto simp: create_pingt_def intro!: keeps_fds_intros)
  have 1: "keeps_fds (cancel_all head)" by (induction head) (auto intro!: keeps_fds_intros)
  have 2: "keeps_fds (join_all os st head)" for st by (induction head arbitrary: st) (auto intro!: keeps_fds_intros)
  have 3: "keeps_fds (free_all head)" by (induction head) (auto intro!: keeps_fds_intros)
  show "keeps_fds (destroy_pingt os head)" unfolding destroy_pingt_def by (intro keeps_fds_intros 1 2 3)
qed

lemma keeps_fds_visit [keeps_fds_intros]:
  "keeps_fds (start_tour os hostip rt ur us hosts)" "keeps_fds (tour_packet os host hostip rt ur us binded head packet src)"
  by (auto simp: start_tour_def tour_packet_def visit_node_def announce_source_def join_tour_def Let_def intro!: keeps_fds_intros)

lemma keeps_fds_iter [keeps_fds_intros]: "keeps_fds (tour_iter os host hostip rt ur us binded head)"
  unfolding tour_iter_def by (intro keeps_fds_intros)

lemma keeps_fds_tour_loop [keeps_fds_intros]: "keeps_fds (tour_loop os host hostip rt ur us binded head)"
  unfolding keeps_fds_def
proof (intro allI impI)
  fix s y assume "tour_loop os host hostip rt ur us binded head s = Some y"
  then show "same_fds s y"
  proof (rule tour_loop.raw_induct [where P = "\<lambda>_ _ _ _ _ _ _ _ s y. same_fds s y", rotated])
    fix f os host hostip rt ur us binded head s y
    assume IH: "\<And>os host hostip rt ur us binded head s y. f os host hostip rt ur us binded head s = Some y \<Longrightarrow> same_fds s y"
      and eq: "bnd (tour_iter os host hostip rt ur us binded head) (\<lambda>x s. case x of
         Go_on binded head \<Rightarrow> f os host hostip rt ur us binded head s
       | Tour_ended head \<Rightarrow> ret x s
       | CLEANUP_THREADS head \<Rightarrow> ret x s) s = Some y"
    have f: "keeps_fds (f os host hostip rt ur us binded head)" for os host hostip rt ur us binded head
      using IH by (simp add: keeps_fds_def)
    have "keeps_fds (bnd (tour_iter os host hostip rt ur us binded head) (\<lambda>x s. case x of
         Go_on binded head \<Rightarrow> f os host hostip rt ur us binded head s
       | Tour_ended head \<Rightarrow> ret x s
       | CLEANUP_THREADS head \<Rightarrow> ret x s))"
      by (intro keeps_fds_intros f)
    with eq show "same_fds s y" by (simp add: keeps_fds_def)
  qed
qed

lemma keeps_fds_end_loop [keeps_fds_intros]: "keeps_fds (end_loop os host ur :: ('a world_scheme, int) prog)"
  unfolding keeps_fds_def
proof (intro allI impI)
  fix s :: "'a world_scheme" and y
  assume "end_loop os host ur s = Some y"
  then show "same_fds s y"
  proof (rule end_loop.raw_induct [where P = "\<lambda>_ _ _ s y. same_fds s y", rotated])
    fix f :: "os \<Rightarrow> string \<Rightarrow> int \<Rightarrow> ('a world_scheme, int) prog" and os host ur s y
    assume IH: "\<And>os host ur s y. f os host ur s = Some y \<Longrightarrow> same_fds s y"
    have f: "keeps_fds (f os host ur)" for os host ur using IH by (simp add: keeps_fds_def)
    let ?body = "bnd (pure (fd_set_add ur [])) (\<lambda>fds s.
     bnd (sys_select os fds (Some 5)) (\<lambda>(rv, rset) s.
       if rv < 0 then ret 0 s
       else if rv = 0 then ret 1 s
       else bnd (sys_recvfrom_in os ur IP_MSS) (\<lambda>(got, src) s. case got of
         None \<Rightarrow> ret 0 s
       | Some data \<Rightarrow> bnd (show_multicast host IP_MSS data) (\<lambda>_ s. f os host ur s) s) s) s)"
    have "keeps_fds ?body" by (intro keeps_fds_intros f)
    moreover assume "?body s = Some y"
    ultimately show "same_fds s y" by (simp add: keeps_fds_def)
  qed
qed

lemma keeps_fds_run_tour [keeps_fds_intros]: "keeps_fds (run_tour os host hostip rt ur us binded)"
proof -
  have "keeps_fds (tour_threads os host hostip rt ur us binded recvthread)" for recvthread
    unfolding tour_threads_def end_tour_def cleanup_tlist_def by (intro keeps_fds_intros) simp_all
  then have "keeps_fds (\<lambda>s. tour_threads os host hostip rt ur us binded (os_tid os (hist s)) s)"
    by (rule keeps_fds_state)
  then show ?thesis unfolding run_tour_def by (intro keeps_fds_intros) simp_all
qed

lemma tour_session_keeps:
  fixes s :: "'a world_scheme"
  shows "keeps_fds (tour_session os argv rt ur us :: ('a world_scheme, int) prog)"
  and "tour_session os argv rt ur us s = Some (Inr (status, t)) \<Longrightarrow> status = EXIT_SUCCESS \<or> status = EXIT_FAILURE"
proof -
  define rest :: "string \<Rightarrow> ('a world_scheme, int) prog" where "rest host = bnd (getipbyhost os (Some host)) (\<lambda>ho.
      bnd (if 1 < length argv then start_tour os (case ho of None \<Rightarrow> 0 | Some a \<Rightarrow> a) rt ur us (tl argv) else ret 1) (\<lambda>started.
        if started = 0 then ret EXIT_FAILURE
        else bnd (run_tour os host (case ho of None \<Rightarrow> 0 | Some a \<Rightarrow> a) rt ur us (1 < length argv)) (\<lambda>ok.
          if ok = 0 then ret EXIT_FAILURE else ret EXIT_SUCCESS)))" for host
  have eq: "tour_session os argv rt ur us = bnd (sys os Gethostname) (\<lambda>g s.
      if g < 0 then ret EXIT_FAILURE s else rest (os_hostname os (hist s)) s)"
    unfolding tour_session_def rest_def Let_def ..
  have "keeps_fds (rest host)" for host unfolding rest_def by (intro keeps_fds_intros)
  then have "keeps_fds (\<lambda>s. rest (os_hostname os (hist s)) s)" by (rule keeps_fds_state)
  then show "keeps_fds (tour_session os argv rt ur us :: ('a world_scheme, int) prog)" unfolding eq by (intro keeps_fds_intros) simp_all
  show "status = EXIT_SUCCESS \<or> status = EXIT_FAILURE" if "tour_session os argv rt ur us s = Some (Inr (status, t))"
    using that unfolding eq rest_def by (auto simp: bnd_eq_Inr split: if_splits)
qed

text \<open>C13: however \<open>main\<close> of the tour application returns, it has closed, in the reverse order, exactly the sockets it
  opened, each of them once, and its exit status is one of the two.\<close>

theorem tour_main_closes:
  assumes "tour_main os argv \<lparr>hist = []\<rparr> = Some (Inr (status, t))"
  shows "closes t = map Close (rev (opened os (hist t))) \<and> length (opened os (hist t)) \<le> 3 \<and> (status = EXIT_SUCCESS \<or> status = EXIT_FAILURE)"
proof -
  let ?rt = "os_int os [Socket (uint AF_INET) SOCK_RAW (uint IPPROTO_TOUR)]"
  let ?h1 = "[Set_hdrincl ?rt, Socket (uint AF_INET) SOCK_RAW (uint IPPROTO_TOUR)]"
  let ?ur = "os_int os (Socket (uint AF_INET) SOCK_DGRAM 0 # ?h1)"
  let ?h2 = "Socket (uint AF_INET) SOCK_DGRAM 0 # ?h1"
  let ?us = "os_int os (Socket (uint AF_INET) SOCK_DGRAM 0 # ?h2)"
  let ?s3 = "\<lparr>hist = Socket (uint AF_INET) SOCK_DGRAM 0 # ?h2\<rparr>"
  note ev = tour_main_def sys_def do_call_def Let_def log_call_def closes_def
  show ?thesis
  proof (cases "valid_args argv \<and> 0 \<le> ?rt \<and> 0 \<le> os_int os ?h1 \<and> 0 \<le> ?ur \<and> 0 \<le> ?us")
    case True
    then obtain w where w: "tour_session os argv ?rt ?ur ?us ?s3 = Some (Inr (status, w))"
      and t: "t = log_call (Close ?rt) (log_call (Close ?ur) (log_call (Close ?us) w))"
      using assms by (auto simp: ev bnd_eq_Inr)
    have "closes w = []" "opened os (hist w) = [?us, ?ur, ?rt]"
      using keeps_fdsD [OF tour_session_keeps(1) w] True by (simp_all add: closes_def)
    then show ?thesis using tour_session_keeps(2) [OF w] t by simp
  next
    case False
    then show ?thesis using assms by (auto simp: ev split: if_splits)
  qed
qed

definition nameless_os :: os where
  "nameless_os = demo_os\<lparr>os_int := (\<lambda>h. case h of Gethostname # _ \<Rightarrow> -1 | _ \<Rightarrow> int (length h))\<rparr>"

theorem tour_main_closes_witness:
  "\<exists>status t. tour_main nameless_os [''tour''] \<lparr>hist = []\<rparr> = Some (Inr (status, t)) \<and>
    (closes t = map Close (rev (opened nameless_os (hist t))) \<and> length (opened nameless_os (hist t)) \<le> 3 \<and>
      (status = EXIT_SUCCESS \<or> status = EXIT_FAILURE)) \<and> closes t = [Close 1, Close 3, Close 4]"
proof -
  let ?t = "\<lparr>hist = [Close 1, Close 3, Close 4, Gethostname, Socket 2 2 0, Socket 2 2 0, Set_hdrincl 1, Socket 2 3 237]\<rparr>"
  have run: "tour_main nameless_os [''tour''] \<lparr>hist = []\<rparr> = Some (Inr (EXIT_FAILURE, ?t))"
    by (simp add: tour_main_def tour_session_def valid_args_def sys_def do_call_def nameless_os_def log_call_def)
  show ?thesis using run tour_main_closes [OF run] by (intro exI [of _ EXIT_FAILURE] exI [of _ ?t]) (simp add: closes_def)
qed

section \<open>Leaving the tour\<close>

lemma tour_loop_ends:
  assumes fds: "fd_ok rt" "fd_ok ur" and sel: "h = Select [ur, rt] None # hist w" "0 \<le> os_int os h" "os_ready os h ur"
    and msg: "os_recv os (Recvfrom ur 1024 # h) = Some (string_bytes str)" "length str < 1024" "CHR 0x00 \<notin> set str"
  shows "tour_loop os host hostip rt ur us binded head w = Some (Inr (Tour_ended head,
    logs [Out (''Node '' @ host @ ''. Received: '' @ str @ [CHR 0x0A]), Recvfrom ur 1024, Select [ur, rt] None] w))"
proof -
  have str: "c_string 1024 (string_bytes str) = Inr str" using msg(2,3) by (rule c_string_bytes)
  have "take 1024 (string_bytes str) = string_bytes str" using msg(2) by (simp add: string_bytes_def)
  then have "tour_iter os host hostip rt ur us binded head w = Some (Inr (Tour_ended head,
      logs [Out (''Node '' @ host @ ''. Received: '' @ str @ [CHR 0x0A]), Recvfrom ur 1024, Select [ur, rt] None] w))"
    using fds sel(2,3) msg(1) str unfolding sel(1)
    by (simp add: tour_iter_def fd_set_add_def sys_select_def sys_recvfrom_in_def Let_def show_multicast_def do_call_def log_call_logs)
  then show ?thesis by (subst tour_loop.simps) simp
qed

text \<open>C14: when the message that ends the tour arrives at a node, the node prints it, stops the receiving thread and every
  sending thread (cancelled, joined and freed, once each), then tells the group that it is a member, and succeeds after five
  seconds of silence.\<close>

theorem tour_leave:
  assumes reached: "tour_loop os host hostip rt ur us b0 [] s = tour_loop os host hostip rt ur us binded head w"
    and fds: "fd_ok rt" "fd_ok ur" and sel: "h = Select [ur, rt] None # hist w" "0 \<le> os_int os h" "os_ready os h ur"
    and msg: "str = take 1023 (end_message lasthost)" "CHR 0x00 \<notin> set lasthost"
      "os_recv os (Recvfrom ur 1024 # h) = Some (string_bytes str)"
    and thr: "\<forall>t h. os_int os (Thread_cancel t # h) = 0 \<and> os_int os (Thread_join t # h) = 0"
    and snd: "\<forall>m h. 0 \<le> os_int os (Send us m # h)" and silent: "\<forall>h. os_int os (Select [ur] (Some 5) # h) = 0"
  shows "tour_threads os host hostip rt ur us b0 recvthread s = Some (Inr (1, logs
    ([Select [ur] (Some 5), Send us (string_bytes (take 1023 (member_message host)))] @
     rev (map (\<lambda>p. Free_ptr (pingt_ptr p)) head) @ rev (map (\<lambda>p. Thread_join (tid p)) head) @ rev (map (\<lambda>p. Thread_cancel (tid p)) head) @
     [Thread_join recvthread, Thread_cancel recvthread,
      Out (''Node '' @ host @ ''. Received: '' @ str @ [CHR 0x0A]), Recvfrom ur 1024, Select [ur, rt] None]) w))"
proof -
  have "CHR 0x00 \<notin> set (end_message lasthost)" using msg(2) by (simp add: end_message_def)
  then have nul: "CHR 0x00 \<notin> set str" unfolding msg(1) by (meson in_set_takeD)
  have len: "length str < 1024" by (simp add: msg(1))
  let ?w = "logs [Out (''Node '' @ host @ ''. Received: '' @ str @ [CHR 0x0A]), Recvfrom ur 1024, Select [ur, rt] None] w"
  have loop: "tour_loop os host hostip rt ur us b0 [] s = Some (Inr (Tour_ended head, ?w))"
    unfolding reached by (rule tour_loop_ends [OF fds sel msg(3) len nul])
  have e: "end_loop os host ur v = Some (Inr (1, logs [Select [ur] (Some 5)] v))" for v
    using silent by (simp add: end_loop_unfold [OF fds(2)] Let_def)
  have "\<not> os_int os (Send us m # h) < 0" for m h using snd by (simp add: not_less)
  then have t: "end_tour os host ur us v =
      Some (Inr (1, logs [Select [ur] (Some 5), Send us (string_bytes (take 1023 (member_message host)))] v))" for v
    by (simp add: end_tour_def send_text_def sys_def e log_call_logs)
  have d: "destroy_pingt os head v = Some (Inr ((1, []), logs (rev (map (\<lambda>p. Free_ptr (pingt_ptr p)) head) @
     rev (map (\<lambda>p. Thread_join (tid p)) head) @ rev (map (\<lambda>p. Thread_cancel (tid p)) head)) v))" for v
    by (simp add: destroy_pingt_def cancel_all_eq join_all_eq free_all_eq)
  show ?thesis using thr by (simp add: tour_threads_def loop sys_def d t)
qed

text \<open>
  The last host of a tour: the packet of the tour arrives first, from the host with the address 1; then the message that
  this host sends to the group comes back to it.
\<close>

definition last_host_os :: os where
  "last_host_os = willing_os\<lparr>os_int := (\<lambda>h. case h of Select _ None # _ \<Rightarrow> 1 | _ \<Rightarrow> os_int willing_os h),
     os_ready := (\<lambda>h fd. fd = (if length h = 1 then 3 else 4)), os_from_in := (\<lambda>_. 1),
     os_recv := (\<lambda>h. case h of Recvfrom fd _ # _ \<Rightarrow>
       Some (if fd = 3 then tour_wire 1 9 MCAST_ADDR 0 [] else string_bytes (take 1023 (end_message ''vm2''))) | _ \<Rightarrow> None)\<rparr>"

lemma last_host_willing: "willing last_host_os"
  by (auto simp: willing_def last_host_os_def willing_os_def split: call.split)

lemma last_host_simps:
  "os_int last_host_os (Select fds None # h) = 1" "os_int last_host_os (Select fds (Some n) # h) = 0"
  "os_int last_host_os (Thread_cancel k # h) = 0" "os_int last_host_os (Thread_join k # h) = 0"
  "os_int last_host_os (Send fd m # h) = int (length m)" "h \<noteq> [] \<Longrightarrow> os_ready last_host_os (c # h) 4"
  "os_recv last_host_os (Recvfrom 4 n # h) = Some (string_bytes (take 1023 (end_message ''vm2'')))"
  by (simp_all add: last_host_os_def willing_os_def)

lemma last_host_visit:
  "\<exists>head w. tgtip ` set head = {1} \<and> hist w \<noteq> [] \<and>
    tour_loop last_host_os ''vm2'' 9 3 4 5 True [] \<lparr>hist = []\<rparr> = tour_loop last_host_os ''vm2'' 9 3 4 5 True head w"
proof -
  let ?s = "logs [Recvfrom 3 65535, Select [4, 3] None] \<lparr>hist = []\<rparr>"
  obtain cs head where v: "tour_packet last_host_os ''vm2'' 9 3 4 5 True [] (tour_wire 1 9 MCAST_ADDR 0 []) 1 ?s =
      Some (Inr (Go_on True head, logs (Send 5 (string_bytes (take 1023 (end_message ''vm2''))) # Sleep 5 # cs) ?s))"
      "tgtip ` set head = insert 1 (tgtip ` set ([] :: pingt list))"
    using visit_ends [OF last_host_willing] by blast
  have "length (tour_wire 1 9 MCAST_ADDR 0 []) = 28" using tour_wire_fields(3) [of "[]"] by simp
  then have "tour_iter last_host_os ''vm2'' 9 3 4 5 True [] \<lparr>hist = []\<rparr> =
      tour_packet last_host_os ''vm2'' 9 3 4 5 True [] (tour_wire 1 9 MCAST_ADDR 0 []) 1 ?s"
    by (simp add: tour_iter_def fd_set_add_def fd_ok_def sys_select_def sys_recvfrom_in_def Let_def last_host_os_def log_call_logs)
  then have "tour_loop last_host_os ''vm2'' 9 3 4 5 True [] \<lparr>hist = []\<rparr> = tour_loop last_host_os ''vm2'' 9 3 4 5 True head
      (logs (Send 5 (string_bytes (take 1023 (end_message ''vm2''))) # Sleep 5 # cs) ?s)"
    using v(1) by (subst tour_loop.simps) simp
  then show ?thesis using v(2) by (intro exI [of _ head] exI) auto
qed

theorem tour_leave_witness:
  "\<exists>(head :: pingt list) w. tgtip ` set head = {1} \<and> tour_threads last_host_os ''vm2'' 9 3 4 5 True 77 \<lparr>hist = []\<rparr> = Some (Inr (1, logs
    ([Select [4] (Some 5), Send 5 (string_bytes (take 1023 (member_message ''vm2'')))] @
     rev (map (\<lambda>p. Free_ptr (pingt_ptr p)) head) @ rev (map (\<lambda>p. Thread_join (tid p)) head) @ rev (map (\<lambda>p. Thread_cancel (tid p)) head) @
     [Thread_join 77, Thread_cancel 77, Out (''Node '' @ ''vm2'' @ ''. Received: '' @ take 1023 (end_message ''vm2'') @ [CHR 0x0A]),
      Recvfrom 4 1024, Select [4, 3] None]) w))"
proof -
  obtain head w where hw: "tgtip ` set head = {1}" "hist w \<noteq> []"
      "tour_loop last_host_os ''vm2'' 9 3 4 5 True [] \<lparr>hist = []\<rparr> = tour_loop last_host_os ''vm2'' 9 3 4 5 True head w"
    using last_host_visit by blast
  let ?h = "Select [4, 3] None # hist w"
  have fd: "fd_ok 3" "fd_ok 4" by (simp_all add: fd_ok_def)
  have sel: "0 \<le> os_int last_host_os ?h" "os_ready last_host_os ?h 4" using hw(2) by (simp_all add: last_host_simps)
  have nul: "CHR 0x00 \<notin> set ''vm2''" by simp
  have thr: "\<forall>t h. os_int last_host_os (Thread_cancel t # h) = 0 \<and> os_int last_host_os (Thread_join t # h) = 0"
      "\<forall>m h. 0 \<le> os_int last_host_os (Send 5 m # h)" "\<forall>h. os_int last_host_os (Select [4] (Some 5) # h) = 0"
    by (simp_all add: last_host_simps)
  note run = tour_leave [OF hw(3) fd refl sel refl nul last_host_simps(7) thr, of 77]
  show ?thesis by (rule exI [of _ head], rule exI [of _ w], rule conjI [OF hw(1) run])
qed

end
