(* ===== verification/Pr_Hwaddrs.thy ===== *)
theory Pr_Hwaddrs
  imports Hw_Addrs Ping
begin

text \<open>
  The tool \<open>prhwaddrs.c\<close>, which prints the interface list. The text that \<open>ntop\<close> returns is in a static array that
  keeps its contents from call to call, so it is passed along. The copy of an address that the list holds has the 16
  bytes of a \<open>struct sockaddr\<close>; the IPv6 branch of \<open>ntop\<close> reads the bytes 8 to 23.
\<close>

abbreviation (input) AF_INET6 :: u16 where "AF_INET6 \<equiv> 10"

definition ntop :: "string \<Rightarrow> sockaddr \<Rightarrow> stop + string" where
  "ntop ip_str ip =
     (if sa_family ip = AF_INET then Inr (inet_ntoa (sin_addr ip))
      else if sa_family ip = AF_INET6 then sbnd (get_bytes (enc_sockaddr ip) 8 16) (\<lambda>_. Inr ip_str)
      else Inr ip_str)"

text \<open>The conversions \<open>%.2x\<close> and \<open>%d\<close>.\<close>

definition hex2_lower :: "byte \<Rightarrow> string" where
  "hex2_lower b = [digit_char (unat b div 16), digit_char (unat b mod 16)]"

definition int_str :: "u32 \<Rightarrow> string" where
  "int_str w = (if sint w < 0 then ''-'' @ dec_str (nat (- sint w)) else dec_str (nat (sint w)))"

text \<open>The two \<open>do\<close> loops over the bytes of a hardware address.\<close>

fun nonzero_from :: "byte list \<Rightarrow> nat \<Rightarrow> nat \<Rightarrow> stop + bool" where
  "nonzero_from ha i 0 = Inr False"
| "nonzero_from ha i (Suc n) =
     sbnd (get_bytes ha i 1) (\<lambda>bs. if bs \<noteq> [0] then Inr True else nonzero_from ha (Suc i) n)"

fun hw_text :: "byte list \<Rightarrow> nat \<Rightarrow> stop + string" where
  "hw_text p 0 = Inr []"
| "hw_text p (Suc n) =
     (case p of [] \<Rightarrow> Inl OutOfBounds
      | b # p' \<Rightarrow> sbnd (hw_text p' n) (\<lambda>str. Inr (hex2_lower b @ (if Suc n = 1 then '' '' else '':'') @ str)))"

definition print_hwa_info :: "string \<Rightarrow> hwa_info \<Rightarrow> ('a world_scheme, string) prog" where
  "print_hwa_info ip_str hwa =
     bnd (do_call (Out (if_name hwa @ '' :'' @ (if ip_alias hwa = IP_ALIAS then '' (alias)'' @ [CHR 0x0A] else [CHR 0x0A])))) (\<lambda>_.
     bnd (pure (ntop ip_str (ip_addr hwa))) (\<lambda>ip_str.
     bnd (do_call (Out (''         IP addr = '' @ ip_str @ [CHR 0x0A]))) (\<lambda>_.
     bnd (pure (nonzero_from (if_haddr hwa) 0 IFHWADDRLEN)) (\<lambda>prflag.
     bnd (if prflag then bnd (pure (hw_text (if_haddr hwa) IFHWADDRLEN)) (\<lambda>str. do_call (Out (''         HW addr = '' @ str))) else ret ()) (\<lambda>_.
     bnd (do_call (Out ([CHR 0x0A] @ ''         interface index = '' @ int_str (if_index hwa) @ [CHR 0x0A, CHR 0x0A]))) (\<lambda>_.
     ret ip_str))))))"

fun print_hwa_list :: "string \<Rightarrow> hwa_info list \<Rightarrow> ('a world_scheme, unit) prog" where
  "print_hwa_list ip_str [] = ret ()"
| "print_hwa_list ip_str (hwa # hwa_next) = bnd (print_hwa_info ip_str hwa) (\<lambda>ip_str. print_hwa_list ip_str hwa_next)"

text \<open>\<open>main\<close>; \<open>exit (0)\<close> at its end is the result 0.\<close>

definition prhwaddrs_main :: "os \<Rightarrow> ('a world_scheme, int) prog" where
  "prhwaddrs_main os =
     bnd (get_hw_addrs os) (\<lambda>hwahead.
     bnd (print_hwa_list [] hwahead) (\<lambda>_.
     bnd (free_hwa_info hwahead) (\<lambda>_. ret 0)))"

section \<open>What it prints\<close>

text \<open>The lines of one interface.\<close>

definition hwa_lines :: "hwa_info \<Rightarrow> string list" where
  "hwa_lines hwa =
     [if_name hwa @ '' :'' @ (if ip_alias hwa = IP_ALIAS then '' (alias)'' else []) @ [CHR 0x0A],
      ''         IP addr = '' @ inet_ntoa (sin_addr (ip_addr hwa)) @ [CHR 0x0A]] @
     (if \<exists>b \<in> set (if_haddr hwa). b \<noteq> 0 then
        [''         HW addr = '' @ concat (map (\<lambda>b. hex2_lower b @ '':'') (butlast (if_haddr hwa))) @ hex2_lower (last (if_haddr hwa)) @ '' '']
      else []) @
     [[CHR 0x0A] @ ''         interface index = '' @ int_str (if_index hwa) @ [CHR 0x0A, CHR 0x0A]]"

lemma nonzero_from_eq: "i + n = length ha \<Longrightarrow> nonzero_from ha i n = Inr (\<exists>b \<in> set (drop i ha). b \<noteq> 0)"
proof (induction n arbitrary: i)
  case (Suc n)
  then have "drop i ha = ha ! i # drop (Suc i) ha" by (intro Cons_nth_drop_Suc [symmetric]) simp
  then show ?case using Suc by (simp add: get_bytes_def)
qed simp

lemma hw_text_eq: "p \<noteq> [] \<Longrightarrow>
  hw_text p (length p) = Inr (concat (map (\<lambda>b. hex2_lower b @ '':'') (butlast p)) @ hex2_lower (last p) @ '' '')"
proof (induction p)
  case (Cons b p)
  then show ?case by (cases p) simp_all
qed simp

lemma print_hwa_info_eq:
  assumes "sa_family (ip_addr hwa) = AF_INET" and "length (if_haddr hwa) = IFHWADDRLEN"
  shows "print_hwa_info ip_str hwa s = Some (Inr (inet_ntoa (sin_addr (ip_addr hwa)), logs (rev (map Out (hwa_lines hwa))) s))"
proof -
  have "nonzero_from (if_haddr hwa) 0 IFHWADDRLEN = Inr (\<exists>b \<in> set (if_haddr hwa). b \<noteq> 0)"
    using nonzero_from_eq [of 0 IFHWADDRLEN "if_haddr hwa"] assms(2) by simp
  moreover have "hw_text (if_haddr hwa) IFHWADDRLEN =
      Inr (concat (map (\<lambda>b. hex2_lower b @ '':'') (butlast (if_haddr hwa))) @ hex2_lower (last (if_haddr hwa)) @ '' '')"
    using hw_text_eq [of "if_haddr hwa"] assms(2) by fastforce
  ultimately show ?thesis using assms(1)
    by (simp add: print_hwa_info_def hwa_lines_def ntop_def do_call_def log_call_logs)
qed

text \<open>The two allocations of an entry, in the reverse of the order in which they are freed.\<close>

definition hwa_frees :: "hwa_info \<Rightarrow> call list" where
  "hwa_frees hwa = [Free_ptr (hwa_ptr hwa), Free_ptr (ip_addr_ptr hwa)]"

lemma free_hwa_info_eq: "free_hwa_info hs s = Some (Inr ((), logs (concat (map hwa_frees (rev hs))) s))"
  by (induction hs arbitrary: s) (simp_all add: do_call_def hwa_frees_def)

lemma print_hwa_list_eq:
  assumes "\<forall>x \<in> set hs. sa_family (ip_addr x) = AF_INET \<and> length (if_haddr x) = IFHWADDRLEN"
  shows "print_hwa_list str hs s = Some (Inr ((), logs (rev (map Out (concat (map hwa_lines hs)))) s))"
  using assms by (induction hs arbitrary: str s) (simp_all add: print_hwa_info_eq)

text \<open>C30: the tool prints, for every interface of the list and in its order, the name with the alias mark, the
  address, the hardware address unless all of its bytes are zero, and the index, and then frees every entry of the list with
  its address, once.\<close>

theorem prhwaddrs_prints:
  assumes list: "get_hw_addrs os s = Some (Inr (hs, w))"
    and wf: "\<forall>x \<in> set hs. sa_family (ip_addr x) = AF_INET \<and> length (if_haddr x) = IFHWADDRLEN"
  shows "prhwaddrs_main os s = Some (Inr (0, logs (concat (map hwa_frees (rev hs)) @
    rev (map Out (concat (map hwa_lines hs)))) w))"
  using list by (simp add: prhwaddrs_main_def free_hwa_info_eq print_hwa_list_eq [OF wf])

definition eth_os :: os where
  "eth_os = demo_os\<lparr>os_int := (\<lambda>h. int (length h)), os_ifconf := (\<lambda>_. [\<lparr>ifr_name = ''eth0'', ifr_addr = mk_sockaddr_in AF_INET 2\<rparr>])\<rparr>"

theorem prhwaddrs_prints_witness:
  "\<exists>hs w. prhwaddrs_main eth_os \<lparr>hist = []\<rparr> = Some (Inr (0, logs (concat (map hwa_frees (rev hs)) @
      rev (map Out (concat (map hwa_lines hs)))) w)) \<and> map (\<lambda>x. (ip_addr x, hwa_ptr x, ip_addr_ptr x)) hs = [(mk_sockaddr_in AF_INET 2, 7, 8)]"
proof -
  let ?hwa = "\<lparr>if_name = ''eth0'', if_haddr = replicate 6 7, if_index = 2, ip_alias = 0, ip_addr = mk_sockaddr_in AF_INET 2,
    hwa_ptr = 7, ip_addr_ptr = 8\<rparr>"
  let ?i = "\<lparr>ifr_name = ''eth0'', ifr_addr = mk_sockaddr_in AF_INET 2\<rparr>"
  have os: "os_int eth_os h = int (length h)" "os_ifconf eth_os h = [?i]" "os_hwaddr eth_os h = \<lparr>sa_family = 1, sa_data = replicate 14 7\<rparr>"
      "os_ifindex eth_os h = 2" for h
    by (simp_all add: eth_os_def demo_os_def)
  note ev = os sys_def ifconf_answer_def ifconf_fit_def do_call_def log_call_def
  let ?s2 = "\<lparr>hist = [Free_ptr 2, Ioctl_ifconf 1 4000, Malloc 4000, Socket 2 2 0]\<rparr>"
  let ?s3 = "\<lparr>hist = [Ioctl_ifconf 1 4400, Malloc 4400, Free_ptr 2, Ioctl_ifconf 1 4000, Malloc 4000, Socket 2 2 0]\<rparr>"
  have "ifconf_loop eth_os 1 0 4000 \<lparr>hist = [Socket 2 2 0]\<rparr> = ifconf_loop eth_os 1 40 4400 ?s2"
    by (subst ifconf_loop.simps) (simp add: ev)
  also have "\<dots> = Some (Inr (Some (5, [?i]), ?s3))"
    by (subst ifconf_loop.simps) (simp add: ev)
  finally have loop: "ifconf_loop eth_os 1 0 4000 \<lparr>hist = [Socket 2 2 0]\<rparr> = Some (Inr (Some (5, [?i]), ?s3))" .
  have "\<exists>w. hwa_loop eth_os 1 [] [] [?i] ?s3 = Some (Inr (Hwa_done [?hwa], w))"
    by (simp add: ev Let_def if_haddr_of_def if_index_of_def)
  then have "\<exists>w. get_hw_addrs eth_os \<lparr>hist = []\<rparr> = Some (Inr ([?hwa], w))"
    using loop by (auto simp: get_hw_addrs_def os sys_def do_call_def log_call_def)
  then obtain w where w: "get_hw_addrs eth_os \<lparr>hist = []\<rparr> = Some (Inr ([?hwa], w))" by blast
  from prhwaddrs_prints [OF w] show ?thesis by (intro exI [of _ "[?hwa]"] exI [of _ w]) simp
qed

end
